theory Spec2Isabelle
  imports Complex_Main "HOL-Library.Log_Nat" "HOL-Library.Multiset"
begin

section \<open>Python values\<close>

text \<open>
  A Python \<open>str\<close> is a sequence of Unicode code points, so it is modelled as a list of
  naturals (the patterns of \<open>RatingExtractor\<close> contain the code points U+8BC4, U+5206
  and U+FF1A, which are no bytes). \<open>ascii\<close> turns an ASCII literal into such a string.
\<close>

type_synonym pystr = "nat list"

definition ascii :: "string \<Rightarrow> pystr" where
  "ascii s = map of_char s"

text \<open>
  What \<open>response.json()\<close> returns: \<open>None\<close>, a \<open>bool\<close>, an \<open>int\<close>, a \<open>float\<close>, a
  \<open>str\<close>, a \<open>list\<close> or a \<open>dict\<close>. A dict is an association list read with
  \<open>map_of\<close>. A float is its exact value, or one of \<open>nan\<close>, \<open>inf\<close>, \<open>-inf\<close>
  (Python's \<open>json\<close> reads the tokens \<open>NaN\<close> and \<open>Infinity\<close>).
\<close>

datatype pyfloat = Finite rat | NonFinite

datatype json =
    JNull
  | JBool bool
  | JInt int
  | JFloat pyfloat
  | JStr pystr
  | JList "json list"
  | JDict "(pystr \<times> json) list"

datatype py_error = AttributeError | TypeError | ValueError | KeyError | OverflowError

text \<open>Python's truth value of an object, as \<open>not comments_data\<close> tests it.\<close>

fun truthy :: "json \<Rightarrow> bool" where
  "truthy JNull = False"
| "truthy (JBool b) = b"
| "truthy (JInt i) = (i \<noteq> 0)"
| "truthy (JFloat f) = (f \<noteq> Finite 0)"
| "truthy (JStr s) = (s \<noteq> [])"
| "truthy (JList xs) = (xs \<noteq> [])"
| "truthy (JDict kvs) = (kvs \<noteq> [])"

text \<open>\<open>d.get(key, default)\<close> on a dict.\<close>

definition dict_get :: "(pystr \<times> json) list \<Rightarrow> pystr \<Rightarrow> json \<Rightarrow> json" where
  "dict_get d k dflt = (case map_of d k of None \<Rightarrow> dflt | Some v \<Rightarrow> v)"

text \<open>
  \<open>x.get(key, default)\<close> on any object: only a dict has the method, every other JSON
  value raises \<open>AttributeError\<close>.
\<close>

fun py_get :: "json \<Rightarrow> pystr \<Rightarrow> json \<Rightarrow> py_error + json" where
  "py_get (JDict d) k dflt = Inr (dict_get d k dflt)"
| "py_get _ k dflt = Inl AttributeError"

text \<open>
  \<open>for note in notes\<close>: a list gives its elements, a dict its keys, a str its
  characters; \<open>None\<close>, a bool and a number are not iterable.
\<close>

fun py_iter :: "json \<Rightarrow> py_error + json list" where
  "py_iter (JList xs) = Inr xs"
| "py_iter (JDict d) = Inr (map JStr (remdups (map fst d)))"
| "py_iter (JStr s) = Inr (map (\<lambda>c. JStr [c]) s)"
| "py_iter _ = Inl TypeError"

section \<open>\<open>ICLR26RatingCrawler.extract_ratings_from_comments\<close>\<close>

text \<open>
  \<open>isinstance(v, int)\<close> holds of an \<open>int\<close> and of a \<open>bool\<close> (a subclass of \<open>int\<close>);
  \<open>int_value\<close> is the integer such an object compares and adds as (\<open>True\<close> is 1,
  \<open>False\<close> is 0). The ratings list of the model holds these integer values.
\<close>

fun isinstance_int :: "json \<Rightarrow> bool" where
  "isinstance_int (JInt i) = True"
| "isinstance_int (JBool b) = True"
| "isinstance_int _ = False"

fun int_value :: "json \<Rightarrow> int" where
  "int_value (JInt i) = i"
| "int_value (JBool b) = (if b then 1 else 0)"
| "int_value _ = 0"

text \<open>
  The test of line 185:
  \<open>rating_value is not None and isinstance(rating_value, int) and 0 <= rating_value <= 10\<close>.
\<close>

definition rating_accepted :: "json \<Rightarrow> bool" where
  "rating_accepted rating_value \<longleftrightarrow>
     rating_value \<noteq> JNull \<and> isinstance_int rating_value \<and>
     0 \<le> int_value rating_value \<and> int_value rating_value \<le> 10"

text \<open>
  The body of the loop for one note (lines 175 to 186): the value the note appends to
  \<open>ratings\<close>, if any, or the exception it raises.
\<close>

definition note_rating :: "json \<Rightarrow> py_error + int option" where
  "note_rating note =
     (case py_get note (ascii ''content'') (JDict []) of
        Inl e \<Rightarrow> Inl e
      | Inr content \<Rightarrow>
          (case py_get content (ascii ''rating'') (JDict []) of
             Inl e \<Rightarrow> Inl e
           | Inr rating_field \<Rightarrow>
               (let rating_value =
                      (case rating_field of
                         JDict r \<Rightarrow> dict_get r (ascii ''value'') JNull
                       | _ \<Rightarrow> rating_field)
                in if rating_accepted rating_value
                   then Inr (Some (int_value rating_value))
                   else Inr None)))"

fun extract_loop :: "json list \<Rightarrow> int list \<Rightarrow> py_error + int list" where
  "extract_loop [] ratings = Inr ratings"
| "extract_loop (note # notes) ratings =
     (case note_rating note of
        Inl e \<Rightarrow> Inl e
      | Inr None \<Rightarrow> extract_loop notes ratings
      | Inr (Some v) \<Rightarrow> extract_loop notes (ratings @ [v]))"

definition extract_ratings_from_comments :: "json \<Rightarrow> py_error + int list" where
  "extract_ratings_from_comments comments_data =
     (case py_get comments_data (ascii ''notes'') (JList []) of
        Inl e \<Rightarrow> Inl e
      | Inr notes \<Rightarrow>
          (case py_iter notes of
             Inl e \<Rightarrow> Inl e
           | Inr ns \<Rightarrow> extract_loop ns []))"

section \<open>Regular expressions of \<open>RatingExtractor\<close>\<close>

text \<open>
  The tables of the Unicode character database and the interpreter's limit on the digits
  of \<open>int(str)\<close> belong to the Python installation, not to this repository. The ASCII
  range is written out below; beyond it the tables are a parameter:
  \<^item> \<open>u_isspace c\<close>: \<open>\s\<close> matches the non-ASCII code point \<open>c\<close>;
  \<^item> \<open>u_decimal c\<close>: the value of the non-ASCII decimal digit \<open>c\<close>, which \<open>\d\<close> matches
    and \<open>int\<close> reads;
  \<^item> \<open>u_isalnum c\<close>: the non-ASCII code point \<open>c\<close> is alphanumeric, a word character
    for \<open>\b\<close>;
  \<^item> \<open>u_casematch l c\<close>: under \<open>re.IGNORECASE\<close> the non-ASCII code point \<open>c\<close> matches the
    pattern letter whose lower case is the ASCII letter \<open>l\<close>;
  \<^item> \<open>int_max_str_digits\<close>: the longest digit string \<open>int\<close> converts, if limited.
\<close>

record unicode_db =
  u_isspace :: "nat \<Rightarrow> bool"
  u_decimal :: "nat \<Rightarrow> nat option"
  u_isalnum :: "nat \<Rightarrow> bool"
  u_casematch :: "nat \<Rightarrow> nat \<Rightarrow> bool"
  int_max_str_digits :: "nat option"

definition ascii_lower :: "nat \<Rightarrow> nat" where
  "ascii_lower c = (if 65 \<le> c \<and> c \<le> 90 then c + 32 else c)"

definition is_space :: "unicode_db \<Rightarrow> nat \<Rightarrow> bool" where
  "is_space db c =
     (if c < 128 then (9 \<le> c \<and> c \<le> 13) \<or> (28 \<le> c \<and> c \<le> 32) else u_isspace db c)"

definition digit_val :: "unicode_db \<Rightarrow> nat \<Rightarrow> nat option" where
  "digit_val db c =
     (if c < 128 then (if 48 \<le> c \<and> c \<le> 57 then Some (c - 48) else None)
      else u_decimal db c)"

definition is_word :: "unicode_db \<Rightarrow> nat \<Rightarrow> bool" where
  "is_word db c =
     (if c < 128
      then (48 \<le> c \<and> c \<le> 57) \<or> (65 \<le> c \<and> c \<le> 90) \<or> (97 \<le> c \<and> c \<le> 122) \<or> c = 95
      else u_isalnum db c)"

text \<open>
  The character classes the patterns use: a literal without case (\<open>:\<close>, \<open>/\<close>, a digit,
  a CJK character) or a literal of a pattern compiled without \<open>re.IGNORECASE\<close>; an ASCII
  letter under \<open>re.IGNORECASE\<close>; \<open>\s\<close>; \<open>\d\<close>; a set \<open>[...]\<close> of literals; a range
  \<open>[a-b]\<close>.
\<close>

datatype charclass =
    Lit nat
  | LitCI nat
  | Space
  | Digit
  | OneOf "nat list"
  | Range nat nat

fun cls_match :: "unicode_db \<Rightarrow> charclass \<Rightarrow> nat \<Rightarrow> bool" where
  "cls_match db (Lit l) c = (c = l)"
| "cls_match db (LitCI l) c =
     (if c < 128 then ascii_lower c = ascii_lower l else u_casematch db (ascii_lower l) c)"
| "cls_match db Space c = is_space db c"
| "cls_match db Digit c = (digit_val db c \<noteq> None)"
| "cls_match db (OneOf ls) c = (c \<in> set ls)"
| "cls_match db (Range a b) c = (a \<le> c \<and> c \<le> b)"

text \<open>
  A pattern is a sequence of items: one character of a class, a greedy \<open>*\<close> or \<open>+\<close> of
  a class, the capturing group, an alternation \<open>a|b\<close>, the word boundary \<open>\b\<close>.
\<close>

datatype item =
    One charclass
  | Many charclass
  | Many1 charclass
  | Cap "item list"
  | Alt "item list" "item list"
  | Bound

text \<open>
  The state of a match attempt: the character before the current position (for \<open>\b\<close>),
  the text from the current position on, and what the group has captured.
\<close>

type_synonym mstate = "nat option \<times> pystr \<times> pystr option"

text \<open>
  A greedy repetition of a class leaves the positions it can stop at, the longest
  first: the order in which the backtracking matcher of \<open>re\<close> tries them.
\<close>

fun many :: "(nat \<Rightarrow> bool) \<Rightarrow> nat option \<Rightarrow> pystr \<Rightarrow> (nat option \<times> pystr) list" where
  "many p prev [] = [(prev, [])]"
| "many p prev (x # xs) =
     (if p x then many p (Some x) xs @ [(prev, x # xs)] else [(prev, x # xs)])"

definition word_opt :: "unicode_db \<Rightarrow> nat option \<Rightarrow> bool" where
  "word_opt db c = (case c of None \<Rightarrow> False | Some x \<Rightarrow> is_word db x)"

definition at_boundary :: "unicode_db \<Rightarrow> nat option \<Rightarrow> pystr \<Rightarrow> bool" where
  "at_boundary db prev rest =
     (word_opt db prev \<noteq> word_opt db (case rest of [] \<Rightarrow> None | x # _ \<Rightarrow> Some x))"

text \<open>
  The matcher returns every way the items can match from a state, in the order the
  backtracking matcher explores them; the match \<open>re\<close> reports is the first.
\<close>

fun m_item :: "unicode_db \<Rightarrow> item \<Rightarrow> mstate \<Rightarrow> mstate list"
  and m_seq :: "unicode_db \<Rightarrow> item list \<Rightarrow> mstate \<Rightarrow> mstate list" where
  "m_item db (One c) (prev, rest, cap) =
     (case rest of
        [] \<Rightarrow> []
      | x # xs \<Rightarrow> if cls_match db c x then [(Some x, xs, cap)] else [])"
| "m_item db (Many c) (prev, rest, cap) =
     map (\<lambda>(p, r). (p, r, cap)) (many (cls_match db c) prev rest)"
| "m_item db (Many1 c) (prev, rest, cap) =
     (case rest of
        [] \<Rightarrow> []
      | x # xs \<Rightarrow>
          if cls_match db c x
          then map (\<lambda>(p, r). (p, r, cap)) (many (cls_match db c) (Some x) xs)
          else [])"
| "m_item db (Cap its) (prev, rest, cap) =
     map (\<lambda>(p, r, _). (p, r, Some (take (length rest - length r) rest)))
       (m_seq db its (prev, rest, cap))"
| "m_item db (Alt as bs) s = m_seq db as s @ m_seq db bs s"
| "m_item db Bound (prev, rest, cap) =
     (if at_boundary db prev rest then [(prev, rest, cap)] else [])"
| "m_seq db [] s = [s]"
| "m_seq db (i # its) s = concat (map (m_seq db its) (m_item db i s))"

text \<open>
  \<open>re.findall(pattern, text)\<close> for a pattern with one group: the group of every match,
  scanning from the left; after a match the scan goes on where the match ended, after a
  failure one character further. (No pattern here matches the empty string; were a
  match empty, the scan moves one character on.)
\<close>

function findall_from :: "unicode_db \<Rightarrow> item list \<Rightarrow> nat option \<Rightarrow> pystr \<Rightarrow> pystr list" where
  "findall_from db pat prev [] =
     (case m_seq db pat (prev, [], None) of
        [] \<Rightarrow> []
      | (p, r, cap) # _ \<Rightarrow> [case cap of None \<Rightarrow> [] | Some g \<Rightarrow> g])"
| "findall_from db pat prev (x # xs) =
     (case m_seq db pat (prev, x # xs, None) of
        [] \<Rightarrow> findall_from db pat (Some x) xs
      | (p, r, cap) # _ \<Rightarrow>
          (case cap of None \<Rightarrow> [] | Some g \<Rightarrow> g) #
          (if length r < length (x # xs) then findall_from db pat p r
           else findall_from db pat (Some x) xs))"
  by pat_completeness auto
termination
  by (relation "measure (\<lambda>(db, pat, prev, text). length text)") auto

definition findall :: "unicode_db \<Rightarrow> item list \<Rightarrow> pystr \<Rightarrow> pystr list" where
  "findall db pat text = findall_from db pat None text"

text \<open>
  \<open>int(s)\<close> on a string of decimal digits: \<open>ValueError\<close> on any other character, on the
  empty string and on a string longer than the interpreter's limit (CPython checks the
  limit only on strings of more than 640 digits).
\<close>

fun digits_value :: "unicode_db \<Rightarrow> pystr \<Rightarrow> int \<Rightarrow> py_error + int" where
  "digits_value db [] acc = Inr acc"
| "digits_value db (c # cs) acc =
     (case digit_val db c of
        None \<Rightarrow> Inl ValueError
      | Some d \<Rightarrow> digits_value db cs (acc * 10 + int d))"

definition py_int :: "unicode_db \<Rightarrow> pystr \<Rightarrow> py_error + int" where
  "py_int db s =
     (if s = [] then Inl ValueError
      else if (case int_max_str_digits db of
                 None \<Rightarrow> False
               | Some m \<Rightarrow> 640 < length s \<and> m < length s)
      then Inl ValueError
      else digits_value db s 0)"

section \<open>\<open>RatingExtractor\<close>\<close>

definition ci :: "string \<Rightarrow> item list" where
  "ci s = map (\<lambda>c. One (LitCI (of_char c))) s"

definition lit :: "string \<Rightarrow> item list" where
  "lit s = map (\<lambda>c. One (Lit (of_char c))) s"

text \<open>\<open>[:\<dots>]\<close> with the ASCII colon and the fullwidth colon U+FF1A.\<close>

definition colon :: "item list" where
  "colon = [One (OneOf [58, 65306])]"

text \<open>\<open>\s*(\d+)\<close>, the tail of the label patterns.\<close>

definition number_tail :: "item list" where
  "number_tail = [Many Space, Cap [Many1 Digit]]"

text \<open>
  The eight patterns of lines 54 to 63, in their order. The label of the second is the two
  characters U+8BC4 U+5206, the code points 35780 and 20998.
\<close>

definition RATING_PATTERNS :: "item list list" where
  "RATING_PATTERNS =
     [ ci ''Rating'' @ lit '':'' @ number_tail,
       [One (Lit 35780), One (Lit 20998)] @ colon @ number_tail,
       ci ''rating'' @ colon @ number_tail,
       [Cap [Many1 Digit], Many Space] @ lit ''/'' @ [Many Space] @ lit ''10'',
       [Cap [Many1 Digit], Many Space] @ ci ''out'' @ [Many Space] @ ci ''of'' @
         [Many Space] @ lit ''10'',
       ci ''Overall'' @ [Many Space] @ ci ''Rating'' @ colon @ number_tail,
       ci ''Overall'' @ colon @ number_tail,
       ci ''Recommendation'' @ colon @ number_tail ]"

text \<open>\<open>\b([1-9]|10)\b\<close>, compiled without flags.\<close>

definition standalone_pattern :: "item list" where
  "standalone_pattern = [Bound, Cap [Alt [One (Range 49 57)] (lit ''10'')], Bound]"

text \<open>
  The loop over the patterns (lines 71 to 80): \<open>Some rating\<close> when the loop returns,
  \<open>None\<close> when it runs to its end.
\<close>

fun pattern_loop :: "unicode_db \<Rightarrow> item list list \<Rightarrow> pystr \<Rightarrow> int option" where
  "pattern_loop db [] text = None"
| "pattern_loop db (pattern # patterns) text =
     (case findall db pattern text of
        [] \<Rightarrow> pattern_loop db patterns text
      | m # _ \<Rightarrow>
          (case py_int db m of
             Inl e \<Rightarrow> pattern_loop db patterns text
           | Inr rating \<Rightarrow>
               if 1 \<le> rating \<and> rating \<le> 10 then Some rating
               else pattern_loop db patterns text))"

definition extract_rating_from_text :: "unicode_db \<Rightarrow> pystr \<Rightarrow> int option" where
  "extract_rating_from_text db text =
     (if text = [] then None
      else
        (case pattern_loop db RATING_PATTERNS text of
           Some rating \<Rightarrow> Some rating
         | None \<Rightarrow>
             (let numbers = findall db standalone_pattern text
              in if numbers \<noteq> [] \<and> length numbers = 1
                 then (case py_int db (numbers ! 0) of
                         Inr v \<Rightarrow> Some v
                       | Inl e \<Rightarrow> None)
                 else None)))"

text \<open>A database with no character beyond ASCII in any class, and no digit limit.\<close>

definition ascii_db :: unicode_db where
  "ascii_db = \<lparr> u_isspace = (\<lambda>c. False), u_decimal = (\<lambda>c. None), u_isalnum = (\<lambda>c. False),
       u_casematch = (\<lambda>l c. False), int_max_str_digits = None \<rparr>"

section \<open>Numbers: \<open>statistics.mean\<close> and \<open>round\<close>\<close>

text \<open>
  \<open>mean\<close> of a list of ints returns an \<open>int\<close> when the average is whole and a \<open>float\<close>
  otherwise, and \<open>round(x, 2)\<close> keeps an \<open>int\<close> as it is; so \<open>avg_rating\<close> holds either.
  A float is modelled by its exact value, a rational.
\<close>

datatype pynum = PyInt int | PyFloat rat


text \<open>Rounding to the nearest integer, a tie to the even one.\<close>

definition round_half_even :: "rat \<Rightarrow> int" where
  "round_half_even x =
     (let f = \<lfloor>x\<rfloor>; r = x - of_int f
      in if r < 1 / 2 then f
         else if 1 / 2 < r then f + 1
         else if even f then f else f + 1)"

text \<open>\<open>binary_exponent x\<close> is the \<open>e\<close> with \<open>2 ^ e \<le> x < 2 ^ (e + 1)\<close>, for \<open>x > 0\<close>.\<close>

definition binary_exponent :: "rat \<Rightarrow> int" where
  "binary_exponent x =
     (let (a, b) = quotient_of x; t = bitlen a - bitlen b
      in if 2 powi t \<le> x then t else t - 1)"

text \<open>
  The IEEE 754 double nearest to a rational, a tie to the even significand: 53 bits of
  significand, exponents from -1022 (below, the subnormal spacing). This is what
  \<open>float(Fraction)\<close>, that is \<open>numerator / denominator\<close>, and the conversion of a decimal
  string return. Overflow is left out: no number here is above 10.
\<close>

definition to_double :: "rat \<Rightarrow> rat" where
  "to_double x =
     (if x = 0 then 0
      else
        (let e = max (binary_exponent \<bar>x\<bar>) (- 1022); u = 2 powi (e - 52)
         in of_int (round_half_even (x / u)) * u))"

text \<open>
  \<open>statistics.mean(data)\<close> on ints: the exact sum as a fraction, divided by the number of
  values; an \<open>int\<close> if the denominator is 1, else converted with \<open>float\<close>. (An empty
  list raises; line 217 returns before.)
\<close>

definition py_mean :: "int list \<Rightarrow> pynum" where
  "py_mean data =
     (let q = (of_int (sum_list data) :: rat) / of_nat (length data)
      in if snd (quotient_of q) = 1 then PyInt (fst (quotient_of q)) else PyFloat (to_double q))"

text \<open>
  \<open>round(x, 2)\<close>: an int is returned as it is; a float is written with two decimals,
  correctly rounded (a tie of the float's exact value to the even digit), and the decimal
  string is read back as a double.
\<close>

fun py_round2 :: "pynum \<Rightarrow> pynum" where
  "py_round2 (PyInt i) = PyInt i"
| "py_round2 (PyFloat x) = PyFloat (to_double (of_int (round_half_even (x * 100)) / 100))"

section \<open>\<open>ICLR26RatingCrawler.process_single_paper\<close>\<close>

record PaperRatingInfo =
  paper_id :: pystr
  ratings :: "int list"
  min_rating :: "int option"
  max_rating :: "int option"
  avg_rating :: "pynum option"
  reviewer_count :: nat

text \<open>
  How one call of \<open>session.get\<close>, \<open>raise_for_status\<close> and \<open>response.json\<close> ends, after the
  retries of the adapter: with the parsed body, with the \<open>HTTPError\<close> of a 4xx or 5xx
  status, with another \<open>RequestException\<close> (timeout, connection error, retries
  exhausted), with a body that is no JSON, or with any other exception.
\<close>

datatype fetch_outcome =
    Parsed json
  | HTTPError nat
  | RequestException
  | JSONDecodeError
  | OtherException

text \<open>\<open>fetch_paper_comments\<close>: every exception is printed and becomes \<open>None\<close>.\<close>

fun fetch_paper_comments :: "fetch_outcome \<Rightarrow> json option" where
  "fetch_paper_comments (Parsed j) = Some j"
| "fetch_paper_comments (HTTPError status) = None"
| "fetch_paper_comments RequestException = None"
| "fetch_paper_comments JSONDecodeError = None"
| "fetch_paper_comments OtherException = None"

text \<open>\<open>not comments_data\<close>.\<close>

definition not_data :: "json option \<Rightarrow> bool" where
  "not_data comments_data = (case comments_data of None \<Rightarrow> True | Some j \<Rightarrow> \<not> truthy j)"

text \<open>Lines 217 to 235: the record built from the extracted ratings.\<close>

definition rating_info :: "pystr \<Rightarrow> int list \<Rightarrow> PaperRatingInfo" where
  "rating_info pid rs =
     (if rs = [] then
        \<lparr> paper_id = pid, ratings = [], min_rating = None, max_rating = None,
          avg_rating = None, reviewer_count = 0 \<rparr>
      else
        \<lparr> paper_id = pid, ratings = rs, min_rating = Some (Min (set rs)),
          max_rating = Some (Max (set rs)), avg_rating = Some (py_round2 (py_mean rs)),
          reviewer_count = length rs \<rparr>)"

text \<open>
  What a call leaves behind: how many times it fetched, and the waits it slept
  (\<open>time.sleep\<close> is modelled by recording the wait).
\<close>

record trace =
  fetch_calls :: nat
  sleeps :: "rat list"

definition wait_time :: "nat \<Rightarrow> rat" where
  "wait_time attempt = 2 ^ attempt * (1 / 2)"

definition sleep :: "rat \<Rightarrow> trace \<Rightarrow> trace" where
  "sleep w tr = tr\<lparr>sleeps := sleeps tr @ [w]\<rparr>"

text \<open>
  The loop \<open>for attempt in range(max_retries)\<close>, over the attempts still to come. The
  environment \<open>env\<close> gives the outcome of the \<open>k\<close>-th fetch of this paper. An exception of
  the extraction is caught by \<open>except Exception\<close> (lines 237 to 245).
\<close>

fun attempts_loop ::
  "(nat \<Rightarrow> fetch_outcome) \<Rightarrow> pystr \<Rightarrow> int \<Rightarrow> nat list \<Rightarrow> trace \<Rightarrow> PaperRatingInfo option \<times> trace" where
  "attempts_loop env pid max_retries [] tr = (None, tr)"
| "attempts_loop env pid max_retries (attempt # rest) tr =
     (let comments_data = fetch_paper_comments (env (fetch_calls tr));
          tr1 = tr\<lparr>fetch_calls := fetch_calls tr + 1\<rparr>
      in if not_data comments_data then
           (if int attempt < max_retries - 1
            then attempts_loop env pid max_retries rest (sleep (wait_time attempt) tr1)
            else (None, tr1))
         else
           (case extract_ratings_from_comments (the comments_data) of
              Inl e \<Rightarrow>
                (if int attempt < max_retries - 1
                 then attempts_loop env pid max_retries rest (sleep (wait_time attempt) tr1)
                 else (None, tr1))
            | Inr rs \<Rightarrow> (Some (rating_info pid rs), tr1)))"

definition process_single_paper ::
  "(nat \<Rightarrow> fetch_outcome) \<Rightarrow> pystr \<Rightarrow> int \<Rightarrow> PaperRatingInfo option \<times> trace" where
  "process_single_paper env pid max_retries =
     attempts_loop env pid max_retries [0..<nat max_retries] \<lparr>fetch_calls = 0, sleeps = []\<rparr>"

section \<open>Exceptions of the waits\<close>

text \<open>
  \<open>time.sleep(secs)\<close> converts the wait to the platform's time type before anything else,
  and raises \<open>OverflowError\<close> when it does not fit (CPython counts nanoseconds in a signed
  64-bit integer, so that \<open>time.sleep(1e10)\<close> raises at once); a wait that fits and is
  negative raises \<open>ValueError\<close>. The range belongs to the platform, and is the parameter
  \<open>in_range\<close>. The result is the exception raised, if any. The waits of the model are
  rational numbers: an infinite wait and a wait that is no number, which \<open>time.sleep\<close>
  refuses as well, are not among them.
\<close>

definition time_sleep :: "(rat \<Rightarrow> bool) \<Rightarrow> rat \<Rightarrow> py_error option" where
  "time_sleep in_range secs =
     (if \<not> in_range secs then Some OverflowError
      else if secs < 0 then Some ValueError
      else None)"

text \<open>
  The backoff wait \<open>(2 ** attempt) * 0.5\<close> of lines 206 and 240. The product converts
  \<open>2 ** attempt\<close> to a double and raises \<open>OverflowError\<close> from \<open>attempt = 1024\<close> on, a wait of
  \<open>2 ^ 1023\<close> seconds or more; a smaller wait is exact, and goes to \<open>time.sleep\<close>.
\<close>

definition wait_raises :: "(rat \<Rightarrow> bool) \<Rightarrow> rat \<Rightarrow> py_error option" where
  "wait_raises in_range w =
     (if 2 ^ 1023 \<le> w then Some OverflowError else time_sleep in_range w)"

fun first_raise :: "(rat \<Rightarrow> bool) \<Rightarrow> rat list \<Rightarrow> py_error option" where
  "first_raise in_range [] = None"
| "first_raise in_range (w # ws) =
     (case wait_raises in_range w of
        Some e \<Rightarrow> Some e
      | None \<Rightarrow> first_raise in_range ws)"

text \<open>
  A call of \<open>process_single_paper\<close>, with its exceptions. \<open>attempts_loop\<close> records the waits
  and lets every one of them return. A wait of line 208 that raises does so inside the
  \<open>try\<close>, with \<open>attempt < max_retries - 1\<close>; the handler of line 237 catches the exception,
  computes the same wait and sleeps again, and this second exception leaves the call. A
  wait of line 242 is in the handler already. So the call raises what the first of its
  waits raises, and returns the result of the loop when none does.
\<close>

definition process_single_paper_call ::
  "(rat \<Rightarrow> bool) \<Rightarrow> (nat \<Rightarrow> fetch_outcome) \<Rightarrow> pystr \<Rightarrow> int \<Rightarrow>
     py_error + PaperRatingInfo option" where
  "process_single_paper_call in_range env pid max_retries =
     (case first_raise in_range (sleeps (snd (process_single_paper env pid max_retries))) of
        Some e \<Rightarrow> Inl e
      | None \<Rightarrow> Inr (fst (process_single_paper env pid max_retries)))"

section \<open>\<open>ICLR26RatingCrawler.process_papers_batch\<close>\<close>

record crawler =
  max_workers :: int
  delay :: rat
  results :: "PaperRatingInfo list"
  failed_papers :: "pystr list"

text \<open>
  \<open>__init__\<close>. The extractor, the lock and the session of the crawler hold no state the
  batch reads, and are left out.
\<close>

definition init_crawler :: "int \<Rightarrow> rat \<Rightarrow> crawler" where
  "init_crawler mw d = \<lparr> max_workers = mw, delay = d, results = [], failed_papers = [] \<rparr>"

text \<open>
  A future is named by the position of its paper in \<open>paper_ids\<close>; \<open>future_to_paper\<close> is
  the dict of line 263.
\<close>

definition future_to_paper :: "pystr list \<Rightarrow> (nat \<times> pystr) list" where
  "future_to_paper paper_ids = zip [0..<length paper_ids] paper_ids"

text \<open>
  The loop over \<open>as_completed\<close> (lines 269 to 282): \<open>order\<close> is the order in which the
  futures complete, and \<open>envs i\<close> the environment of the \<open>i\<close>-th future. Each future runs
  \<open>process_single_paper\<close> with the default \<open>max_retries = 3\<close>. \<open>future.result()\<close> returns
  what the call returned, or raises what it raised; the handler of line 277 then adds the
  paper to \<open>failed_papers\<close>, as the \<open>else\<close> of line 275 does for \<open>None\<close>. \<open>if result\<close> tests
  for \<open>None\<close>: a \<open>PaperRatingInfo\<close> is always true. \<open>time.sleep(self.delay)\<close> of line 282 is
  outside the \<open>try\<close>, so what it raises ends the batch, after the paper of this round was
  recorded.
\<close>

fun completed_loop ::
  "(rat \<Rightarrow> bool) \<Rightarrow> (nat \<Rightarrow> nat \<Rightarrow> fetch_outcome) \<Rightarrow> (nat \<times> pystr) list \<Rightarrow> nat list \<Rightarrow>
     PaperRatingInfo list \<Rightarrow> crawler \<Rightarrow> (py_error + PaperRatingInfo list) \<times> crawler" where
  "completed_loop in_range envs f2p [] res c = (Inr res, c)"
| "completed_loop in_range envs f2p (future # rest) res c =
     (case map_of f2p future of
        None \<Rightarrow> (Inl KeyError, c)
      | Some pid \<Rightarrow>
          (let result = process_single_paper_call in_range (envs future) pid 3;
               res1 = (case result of Inr (Some r) \<Rightarrow> res @ [r] | _ \<Rightarrow> res);
               c1 = (case result of
                       Inr (Some r) \<Rightarrow> c
                     | _ \<Rightarrow> c\<lparr>failed_papers := failed_papers c @ [pid]\<rparr>)
           in case time_sleep in_range (delay c) of
                Some e \<Rightarrow> (Inl e, c1)
              | None \<Rightarrow> completed_loop in_range envs f2p rest res1 c1))"

text \<open>
  \<open>ThreadPoolExecutor(max_workers=...)\<close> raises \<open>ValueError\<close> unless \<open>max_workers\<close> is
  positive.
\<close>

definition process_papers_batch ::
  "(rat \<Rightarrow> bool) \<Rightarrow> (nat \<Rightarrow> nat \<Rightarrow> fetch_outcome) \<Rightarrow> nat list \<Rightarrow> crawler \<Rightarrow> pystr list \<Rightarrow>
     (py_error + PaperRatingInfo list) \<times> crawler" where
  "process_papers_batch in_range envs order c paper_ids =
     (if max_workers c \<le> 0 then (Inl ValueError, c)
      else completed_loop in_range envs (future_to_paper paper_ids) order [] c)"

section \<open>Definitions used by the statements\<close>

text \<open>
  \<open>rating_field_is note x\<close>: the note exposes the structured score \<open>x\<close>, that is, its
  \<open>content\<close> is a dict whose \<open>rating\<close> is \<open>x\<close> itself or a dict holding \<open>x\<close> under \<open>value\<close>
  (the two shapes lines 178 to 182 read).
\<close>

definition rating_field_is :: "(pystr \<times> json) list \<Rightarrow> json \<Rightarrow> bool" where
  "rating_field_is note x \<longleftrightarrow>
     (\<exists>content. map_of note (ascii ''content'') = Some (JDict content) \<and>
        (map_of content (ascii ''rating'') = Some x \<and> (\<forall>r. x \<noteq> JDict r) \<or>
         (\<exists>r. map_of content (ascii ''rating'') = Some (JDict r) \<and>
              map_of r (ascii ''value'') = Some x)))"

text \<open>A review with the structured score 7 and the free text \<open>Rating: 3\<close>.\<close>

definition review_7_rating_3 :: "(pystr \<times> json) list" where
  "review_7_rating_3 =
     [(ascii ''content'',
       JDict [(ascii ''comment'', JDict [(ascii ''value'', JStr (ascii ''Rating: 3''))]),
              (ascii ''rating'', JDict [(ascii ''value'', JInt 7)])])]"

text \<open>Reviews whose structured score is a boolean, bare and under \<open>value\<close>.\<close>

definition review_true :: "(pystr \<times> json) list" where
  "review_true = [(ascii ''content'', JDict [(ascii ''rating'', JBool True)])]"

definition review_false :: "(pystr \<times> json) list" where
  "review_false =
     [(ascii ''content'', JDict [(ascii ''rating'', JDict [(ascii ''value'', JBool False)])])]"

text \<open>A review whose structured score is the integer \<open>v\<close>.\<close>

definition review_scored :: "int \<Rightarrow> (pystr \<times> json) list" where
  "review_scored v =
     [(ascii ''content'', JDict [(ascii ''rating'', JDict [(ascii ''value'', JInt v)])])]"

text \<open>A review whose structured score is the float \<open>7.0\<close>.\<close>

definition review_float :: "(pystr \<times> json) list" where
  "review_float =
     [(ascii ''content'', JDict [(ascii ''rating'', JDict [(ascii ''value'', JFloat (Finite 7))])])]"

text \<open>A review with no structured score, whose only field is the free text \<open>Rating: 8\<close>.\<close>

definition review_text_only :: "(pystr \<times> json) list" where
  "review_text_only =
     [(ascii ''content'',
       JDict [(ascii ''review'', JDict [(ascii ''value'', JStr (ascii ''Rating: 8''))])])]"

subsection \<open>Standalone tokens, in the words of the specification\<close>

text \<open>
  The specification's last resort speaks of a standalone token in [1,10]. It is read
  here without any regular expression: the words of a text are its maximal runs of word
  characters, and a standalone token is a word that is one of the numerals \<open>1\<close> to \<open>10\<close>
  (a single digit from \<open>1\<close> to \<open>9\<close>, code points 49 to 57, or \<open>10\<close>).
\<close>

function words :: "(nat \<Rightarrow> bool) \<Rightarrow> pystr \<Rightarrow> pystr list" where
  "words w [] = []"
| "words w (x # xs) =
     (if w x then (x # takeWhile w xs) # words w (dropWhile w xs) else words w xs)"
  by pat_completeness auto
termination
  by (relation "measure (\<lambda>(w, text). length text)")
    (auto simp: le_imp_less_Suc length_dropWhile_le)

definition score_literals :: "pystr list" where
  "score_literals = map (\<lambda>d. [48 + d]) [1..<10] @ [ascii ''10'']"

definition standalone_tokens :: "unicode_db \<Rightarrow> pystr \<Rightarrow> pystr list" where
  "standalone_tokens db text = filter (\<lambda>t. t \<in> set score_literals) (words (is_word db) text)"

definition token_value :: "pystr \<Rightarrow> int" where
  "token_value t = (if t = ascii ''10'' then 10 else int (hd t) - 48)"

definition standalone_scores :: "unicode_db \<Rightarrow> pystr \<Rightarrow> int list" where
  "standalone_scores db text = map token_value (standalone_tokens db text)"

text \<open>No label pattern matches the text: every \<open>re.findall\<close> of the loop is empty.\<close>

definition no_label_match :: "unicode_db \<Rightarrow> pystr \<Rightarrow> bool" where
  "no_label_match db text \<longleftrightarrow> (\<forall>pattern \<in> set RATING_PATTERNS. findall db pattern text = [])"

text \<open>The tokens a scan finds from a position before a word or inside one.\<close>

definition scan_spec :: "unicode_db \<Rightarrow> nat option \<Rightarrow> pystr \<Rightarrow> pystr list" where
  "scan_spec db prev text =
     (if word_opt db prev then standalone_tokens db (dropWhile (is_word db) text)
      else standalone_tokens db text)"

subsection \<open>Attempts of the processor\<close>

text \<open>
  An attempt fails when the fetch gave nothing usable (\<open>not comments_data\<close>) or the
  extraction raised: the two ways the loop goes on to the next attempt.
\<close>

definition attempt_fails :: "fetch_outcome \<Rightarrow> bool" where
  "attempt_fails outcome \<longleftrightarrow>
     not_data (fetch_paper_comments outcome) \<or>
     isl (extract_ratings_from_comments (the (fetch_paper_comments outcome)))"

text \<open>
  The specification's class of permanent errors: a body that does not parse, or a 4xx
  status other than 429. The code has no such class; the definition follows the
  specification's words.
\<close>

definition permanent_error :: "fetch_outcome \<Rightarrow> bool" where
  "permanent_error outcome \<longleftrightarrow>
     (case outcome of
        JSONDecodeError \<Rightarrow> True
      | HTTPError status \<Rightarrow> 400 \<le> status \<and> status < 500 \<and> status \<noteq> 429
      | _ \<Rightarrow> False)"

text \<open>The trace after one more fetch.\<close>

definition fetched :: "trace \<Rightarrow> trace" where
  "fetched tr = tr\<lparr>fetch_calls := fetch_calls tr + 1\<rparr>"

text \<open>A remote that answers every fetch with the status 404.\<close>

definition always_404 :: "nat \<Rightarrow> fetch_outcome" where
  "always_404 k = HTTPError 404"

text \<open>A remote whose first fetch times out and whose later fetches are answered with 404.\<close>

definition timeout_then_404 :: "nat \<Rightarrow> fetch_outcome" where
  "timeout_then_404 k = (if k = 0 then RequestException else HTTPError 404)"

text \<open>
  Every backoff wait of the budget is one that the call can sleep: the waits of the
  attempts before the last.
\<close>

definition waits_accepted :: "(rat \<Rightarrow> bool) \<Rightarrow> int \<Rightarrow> bool" where
  "waits_accepted in_range max_retries \<longleftrightarrow>
     list_all (\<lambda>attempt. wait_raises in_range (wait_time attempt) = None)
       [0..<nat max_retries - 1]"

text \<open>A thread whose only review has no structured score.\<close>

definition thread_unscored :: json where
  "thread_unscored = JDict [(ascii ''notes'', JList [JDict review_text_only])]"


text \<open>A remote that answers the second future with 404 and the others with a thread.\<close>

definition two_succeed_one_fails :: "nat \<Rightarrow> nat \<Rightarrow> fetch_outcome" where
  "two_succeed_one_fails i k = (if i = 1 then HTTPError 404 else Parsed thread_unscored)"

text \<open>
  A platform range for \<open>time.sleep\<close>: the waits whose nanoseconds fit a signed 64-bit
  integer.
\<close>

definition ns_range :: "rat \<Rightarrow> bool" where
  "ns_range secs = (\<bar>secs\<bar> * 10 ^ 9 < 2 ^ 63)"



section \<open>The extraction loop\<close>

lemma extract_loop_append:
  "extract_loop (xs @ ys) acc =
     (case extract_loop xs acc of Inl e \<Rightarrow> Inl e | Inr rs \<Rightarrow> extract_loop ys rs)"
proof (induction xs arbitrary: acc)
  case Nil
  show ?case by simp
next
  case (Cons x xs)
  show ?case
  proof (cases "note_rating x")
    case (Inl e)
    then show ?thesis by simp
  next
    case (Inr r)
    with Cons show ?thesis by (cases r) simp_all
  qed
qed

lemma extract_loop_acc:
  "extract_loop xs acc = (case extract_loop xs [] of Inl e \<Rightarrow> Inl e | Inr rs \<Rightarrow> Inr (acc @ rs))"
proof (induction xs arbitrary: acc)
  case Nil
  show ?case by simp
next
  case (Cons x xs)
  show ?case
  proof (cases "note_rating x")
    case (Inl e)
    then show ?thesis by simp
  next
    case (Inr r)
    show ?thesis
    proof (cases r)
      case None
      with Inr Cons[of acc] show ?thesis by simp
    next
      case (Some v)
      show ?thesis
      proof (cases "extract_loop xs []")
        case (Inl e)
        with Inr Some Cons[of "acc @ [v]"] Cons[of "[v]"] show ?thesis by simp
      next
        case r2: (Inr rs)
        with Inr Some Cons[of "acc @ [v]"] Cons[of "[v]"] show ?thesis by simp
      qed
    qed
  qed
qed

text \<open>The middle note of a thread adds its score between those of its neighbours.\<close>

lemma extract_loop_middle:
  assumes "extract_loop pre [] = Inr a" and "note_rating n = Inr (Some v)"
    and "extract_loop post [] = Inr b"
  shows "extract_loop (pre @ n # post) [] = Inr (a @ v # b)"
proof -
  have "extract_loop (pre @ n # post) [] = extract_loop (n # post) a"
    using assms(1) by (simp add: extract_loop_append)
  also have "\<dots> = extract_loop post (a @ [v])"
    using assms(2) by simp
  also have "\<dots> = Inr ((a @ [v]) @ b)"
    using assms(3) by (simp add: extract_loop_acc[of post "a @ [v]"])
  finally show ?thesis by simp
qed

lemma extract_loop_middle_none:
  assumes "extract_loop pre [] = Inr a" and "note_rating n = Inr None"
    and "extract_loop post [] = Inr b"
  shows "extract_loop (pre @ n # post) [] = Inr (a @ b)"
proof -
  have "extract_loop (pre @ n # post) [] = extract_loop (n # post) a"
    using assms(1) by (simp add: extract_loop_append)
  also have "\<dots> = extract_loop post a"
    using assms(2) by simp
  also have "\<dots> = Inr (a @ b)"
    using assms(3) by (simp add: extract_loop_acc[of post a])
  finally show ?thesis .
qed




lemma extract_notes:
  assumes "map_of body (ascii ''notes'') = Some (JList ns)"
  shows "extract_ratings_from_comments (JDict body) = extract_loop ns []"
  using assms by (simp add: extract_ratings_from_comments_def dict_get_def)

lemma note_rating_field:
  assumes "rating_field_is note x"
  shows "note_rating (JDict note) =
           Inr (if rating_accepted x then Some (int_value x) else None)"
proof -
  from assms obtain content where c: "map_of note (ascii ''content'') = Some (JDict content)"
    and r: "map_of content (ascii ''rating'') = Some x \<and> (\<forall>r. x \<noteq> JDict r) \<or>
         (\<exists>r. map_of content (ascii ''rating'') = Some (JDict r) \<and>
              map_of r (ascii ''value'') = Some x)"
    unfolding rating_field_is_def by blast
  from r show ?thesis
  proof
    assume "map_of content (ascii ''rating'') = Some x \<and> (\<forall>r. x \<noteq> JDict r)"
    with c show ?thesis
      by (cases x) (simp_all add: note_rating_def dict_get_def)
  next
    assume "\<exists>r. map_of content (ascii ''rating'') = Some (JDict r) \<and>
              map_of r (ascii ''value'') = Some x"
    with c show ?thesis
      by (auto simp: note_rating_def dict_get_def)
  qed
qed

lemma thread_with_note:
  assumes "map_of body (ascii ''notes'') = Some (JList (pre @ JDict note # post))"
    and "extract_loop pre [] = Inr a" and "extract_loop post [] = Inr b"
    and "note_rating (JDict note) = Inr (Some v)"
  shows "extract_ratings_from_comments (JDict body) = Inr (a @ v # b)"
  using assms by (simp add: extract_notes extract_loop_middle)

lemmas cls_defs = is_space_def digit_val_def is_word_def ascii_lower_def word_opt_def
  at_boundary_def

lemmas text_defs = extract_rating_from_text_def standalone_pattern_def RATING_PATTERNS_def
  colon_def findall_def ascii_def ci_def lit_def number_tail_def py_int_def


section \<open>The structured score field\<close>

lemma review_7_field: "rating_field_is review_7_rating_3 (JInt 7)"
  by (simp add: rating_field_is_def review_7_rating_3_def ascii_def)

lemma text_rating_3: "extract_rating_from_text ascii_db (ascii ''Rating: 3'') = Some 3"
  by (simp add: text_defs cls_defs ascii_db_def)

text \<open>
  Claim C7. A review record that exposes a structured score field holding an integer in
  [0,10] contributes exactly that value, whatever else the record holds: the extraction
  reads no other field, so no text heuristic is evaluated. The thread's scores are those
  of the notes before, this value, and those of the notes after. In particular the
  record with the structured score 7 and the free text \<open>Rating: 3\<close> (from which the text
  extractor would read 3) yields 7.
\<close>

theorem structured_score_wins:
  assumes "rating_field_is note (JInt v)" and "0 \<le> v" and "v \<le> 10"
    and "map_of body (ascii ''notes'') = Some (JList (pre @ JDict note # post))"
    and "extract_loop pre [] = Inr a" and "extract_loop post [] = Inr b"
  shows "note_rating (JDict note) = Inr (Some v) \<and>
         extract_ratings_from_comments (JDict body) = Inr (a @ v # b)"
proof -
  have n: "note_rating (JDict note) = Inr (Some v)"
    using assms(1-3) by (simp add: note_rating_field rating_accepted_def)
  with assms(4-6) show ?thesis by (simp add: thread_with_note)
qed

theorem structured_score_wins_witness:
  "extract_rating_from_text ascii_db (ascii ''Rating: 3'') = Some 3 \<and>
   note_rating (JDict review_7_rating_3) = Inr (Some 7) \<and>
   extract_ratings_from_comments
     (JDict [(ascii ''notes'', JList [JDict review_7_rating_3])]) = Inr [7]"
  using structured_score_wins[of review_7_rating_3 7
      "[(ascii ''notes'', JList [JDict review_7_rating_3])]" "[]" "[]" "[]" "[]"]
    review_7_field text_rating_3
  by simp

lemma review_true_field: "rating_field_is review_true (JBool True)"
  by (simp add: rating_field_is_def review_true_def ascii_def)

lemma review_false_field: "rating_field_is review_false (JBool False)"
  by (simp add: rating_field_is_def review_false_def ascii_def)

lemma review_true_rating: "note_rating (JDict review_true) = Inr (Some 1)"
  using review_true_field by (simp add: note_rating_field rating_accepted_def)

text \<open>
  Claim C10. The test of line 185 is \<open>isinstance(value, int)\<close> and \<open>0 <= value <= 10\<close>, and a
  Python boolean passes both: a review whose structured rating is \<open>True\<close> contributes the
  score 1, one whose rating is \<open>False\<close> the score 0, and both are in the item's scores.
\<close>

theorem boolean_rating_counted:
  assumes "rating_field_is note (JBool t)"
    and "map_of body (ascii ''notes'') = Some (JList (pre @ JDict note # post))"
    and "extract_loop pre [] = Inr a" and "extract_loop post [] = Inr b"
  shows "note_rating (JDict note) = Inr (Some (if t then 1 else 0)) \<and>
         extract_ratings_from_comments (JDict body) = Inr (a @ (if t then 1 else 0) # b)"
proof -
  have n: "note_rating (JDict note) = Inr (Some (if t then 1 else 0))"
    using assms(1) by (simp add: note_rating_field rating_accepted_def)
  with assms(2-4) show ?thesis by (simp add: thread_with_note)
qed

theorem boolean_rating_counted_witness:
  "extract_ratings_from_comments
     (JDict [(ascii ''notes'', JList [JDict review_true, JDict review_false])]) = Inr [1, 0]"
  using boolean_rating_counted[of review_false False
      "[(ascii ''notes'', JList [JDict review_true, JDict review_false])]"
      "[JDict review_true]" "[]" "[1]" "[]"]
    review_false_field review_true_rating
  by simp

section \<open>The text extractor\<close>

text \<open>What \<open>\b([1-9]|10)\b\<close> matches at one position, in the order of the matcher.\<close>

lemma standalone_match:
  "m_seq db standalone_pattern (prev, rest, None) =
     (if at_boundary db prev rest then
        (case rest of
           [] \<Rightarrow> []
         | x # xs \<Rightarrow>
             (if 49 \<le> x \<and> x \<le> 57 \<and> at_boundary db (Some x) xs
              then [(Some x, xs, Some [x])] else []) @
             (case xs of
                [] \<Rightarrow> []
              | y # ys \<Rightarrow>
                  if x = 49 \<and> y = 48 \<and> at_boundary db (Some 48) ys
                  then [(Some 48, ys, Some [49, 48])] else []))
      else [])"
  by (simp add: standalone_pattern_def lit_def split: list.split)

lemma score_literal_iff:
  "t \<in> set score_literals \<longleftrightarrow> (\<exists>c. t = [c] \<and> 49 \<le> c \<and> c \<le> 57) \<or> t = [49, 48]"
proof -
  have "(\<exists>d\<in>{1..<10}. t = [48 + d]) \<longleftrightarrow> (\<exists>c. t = [c] \<and> 49 \<le> c \<and> c \<le> 57)"
  proof
    assume "\<exists>d\<in>{1..<10}. t = [48 + d]"
    then obtain d where "1 \<le> d" "d < 10" "t = [48 + d]" by auto
    then show "\<exists>c. t = [c] \<and> 49 \<le> c \<and> c \<le> 57" by simp
  next
    assume "\<exists>c. t = [c] \<and> 49 \<le> c \<and> c \<le> 57"
    then obtain c where c: "t = [c]" "49 \<le> c" "c \<le> 57" by blast
    then have "c - 48 \<in> {1..<10}" "t = [48 + (c - 48)]" by auto
    then show "\<exists>d\<in>{1..<10}. t = [48 + d]" by blast
  qed
  then show ?thesis
    by (auto simp: score_literals_def ascii_def)
qed

lemma digit_is_word: "49 \<le> c \<Longrightarrow> c \<le> 57 \<Longrightarrow> is_word db c"
  by (simp add: is_word_def)

lemma zero_is_word: "is_word db 48"
  by (simp add: is_word_def)

lemma words_nonword: "\<not> w x \<Longrightarrow> words w (x # xs) = words w xs"
  by simp

lemma words_word:
  "w x \<Longrightarrow> words w (x # xs) = (x # takeWhile w xs) # words w (dropWhile w xs)"
  by simp

lemma next_nonword:
  "\<not> word_opt db (case xs of [] \<Rightarrow> None | y # _ \<Rightarrow> Some y) \<Longrightarrow>
     takeWhile (is_word db) xs = [] \<and> dropWhile (is_word db) xs = xs"
  by (cases xs) (simp_all add: word_opt_def)

lemma next_word:
  "word_opt db (case xs of [] \<Rightarrow> None | y # _ \<Rightarrow> Some y) \<Longrightarrow>
     \<exists>y ys. xs = y # ys \<and> is_word db y"
  by (cases xs) (simp_all add: word_opt_def)

lemma scan_spec_nil: "scan_spec db prev [] = []"
  by (simp add: scan_spec_def standalone_tokens_def)

lemma scan_inside_word:
  "is_word db x \<Longrightarrow> word_opt db prev \<Longrightarrow> scan_spec db prev (x # xs) = scan_spec db (Some x) xs"
  by (simp add: scan_spec_def word_opt_def)

lemma scan_nonword:
  "\<not> is_word db x \<Longrightarrow> scan_spec db prev (x # xs) = scan_spec db (Some x) xs"
  by (simp add: scan_spec_def word_opt_def standalone_tokens_def)

lemma scan_word_start:
  "is_word db x \<Longrightarrow> \<not> word_opt db prev \<Longrightarrow>
     scan_spec db prev (x # xs) =
       (if x # takeWhile (is_word db) xs \<in> set score_literals
        then [x # takeWhile (is_word db) xs] else []) @ scan_spec db (Some x) xs"
  by (simp add: scan_spec_def word_opt_def standalone_tokens_def)

lemma boundary_after_word:
  "is_word db x \<Longrightarrow> at_boundary db (Some x) xs \<longleftrightarrow> takeWhile (is_word db) xs = []"
  by (cases xs) (simp_all add: at_boundary_def word_opt_def)

lemma boundary_before:
  "at_boundary db prev (x # xs) \<longleftrightarrow> word_opt db prev \<noteq> is_word db x"
  by (simp add: at_boundary_def word_opt_def)

lemma findall_no_match:
  assumes "m_seq db pat (prev, x # xs, None) = []"
  shows "findall_from db pat prev (x # xs) = findall_from db pat (Some x) xs"
  using assms by simp

lemma findall_match:
  assumes "m_seq db pat (prev, x # xs, None) = (p, r, Some g) # others"
    and "length r < Suc (length xs)"
  shows "findall_from db pat prev (x # xs) = g # findall_from db pat p r"
  using assms by simp

text \<open>
  The scan of \<open>re.findall\<close> with the standalone pattern finds exactly the standalone
  tokens, in their order.
\<close>

lemma findall_standalone:
  "findall_from db standalone_pattern prev s = scan_spec db prev s"
proof (induction s arbitrary: prev rule: length_induct)
  case (1 s)
  show ?case
  proof (cases s)
    case Nil
    then show ?thesis
      by (simp add: standalone_match scan_spec_nil)
  next
    case (Cons x xs)
    have IHxs: "findall_from db standalone_pattern p xs = scan_spec db p xs" for p
      using "1.IH" Cons by (simp del: findall_from.simps)
    show ?thesis
    proof (cases "is_word db x \<and> \<not> word_opt db prev")
      case False
      have nomatch: "m_seq db standalone_pattern (prev, x # xs, None) = []"
      proof (cases "is_word db x")
        case True
        with False show ?thesis
          by (simp add: standalone_match boundary_before)
      next
        case nw: False
        then have "\<not> (49 \<le> x \<and> x \<le> 57)" "x \<noteq> 49"
          using digit_is_word[of x db] by auto
        then show ?thesis
          by (auto simp: standalone_match split: list.split)
      qed
      have "scan_spec db prev (x # xs) = scan_spec db (Some x) xs"
      proof (cases "is_word db x")
        case True
        with False show ?thesis by (simp add: scan_inside_word)
      next
        case nw: False
        then show ?thesis by (simp add: scan_nonword)
      qed
      moreover have "findall_from db standalone_pattern prev (x # xs) =
                       findall_from db standalone_pattern (Some x) xs"
        using nomatch by (rule findall_no_match)
      ultimately show ?thesis
        using IHxs Cons by (simp del: findall_from.simps)
    next
      case start: True
      then have wx: "is_word db x" and np: "\<not> word_opt db prev" by simp_all
      have b0: "at_boundary db prev (x # xs)"
        using wx np by (simp add: boundary_before)
      have rhs: "scan_spec db prev (x # xs) =
         (if x # takeWhile (is_word db) xs \<in> set score_literals
          then [x # takeWhile (is_word db) xs] else []) @ scan_spec db (Some x) xs"
        using wx np by (rule scan_word_start)
      consider
          (A) "49 \<le> x" "x \<le> 57" "takeWhile (is_word db) xs = []"
        | (B) ys where "x = 49" "xs = 48 # ys" "takeWhile (is_word db) ys = []"
        | (C) "\<not> (49 \<le> x \<and> x \<le> 57 \<and> takeWhile (is_word db) xs = [])"
              "\<not> (\<exists>ys. x = 49 \<and> xs = 48 # ys \<and> takeWhile (is_word db) ys = [])"
        by blast
      then show ?thesis
      proof cases
        case A
        then have "at_boundary db (Some x) xs"
          using wx by (simp add: boundary_after_word)
        with A b0 obtain others where
          m: "m_seq db standalone_pattern (prev, x # xs, None) = (Some x, xs, Some [x]) # others"
          by (simp add: standalone_match)
        have "findall_from db standalone_pattern prev (x # xs) =
                [x] # findall_from db standalone_pattern (Some x) xs"
          using m by (rule findall_match) simp
        moreover have "[x] \<in> set score_literals"
          using A by (simp add: score_literal_iff)
        ultimately show ?thesis
          using rhs A IHxs Cons by (simp del: findall_from.simps)
      next
        case B
        have w48: "is_word db 48" by (rule zero_is_word)
        have nb: "\<not> at_boundary db (Some x) xs"
          using B wx w48 by (simp add: boundary_after_word)
        have b2: "at_boundary db (Some 48) ys"
          using B w48 by (simp add: boundary_after_word)
        have m: "m_seq db standalone_pattern (prev, x # xs, None) =
                   (Some 48, ys, Some [49, 48]) # []"
          using b0 nb b2 B by (simp add: standalone_match)
        have "findall_from db standalone_pattern prev (x # xs) =
                [49, 48] # findall_from db standalone_pattern (Some 48) ys"
          using m B by (intro findall_match[where others="[]"]) simp_all
        moreover have "findall_from db standalone_pattern (Some 48) ys = scan_spec db (Some 48) ys"
          using "1.IH" Cons B by (simp del: findall_from.simps)
        moreover have "scan_spec db (Some x) xs = scan_spec db (Some 48) ys"
          using B w48 wx by (simp add: scan_inside_word word_opt_def)
        moreover have "x # takeWhile (is_word db) xs = [49, 48]"
          using B w48 by simp
        moreover have "[49, 48] \<in> set score_literals"
          by (simp add: score_literal_iff)
        ultimately show ?thesis
          using rhs Cons by (simp del: findall_from.simps)
      next
        case C
        have nomatch: "m_seq db standalone_pattern (prev, x # xs, None) = []"
          using C wx zero_is_word[of db]
          by (auto simp: standalone_match boundary_after_word split: list.split)
        have "x # takeWhile (is_word db) xs \<notin> set score_literals"
        proof
          assume "x # takeWhile (is_word db) xs \<in> set score_literals"
          then consider "49 \<le> x \<and> x \<le> 57 \<and> takeWhile (is_word db) xs = []"
            | "x = 49 \<and> takeWhile (is_word db) xs = [48]"
            by (auto simp: score_literal_iff)
          then show False
          proof cases
            case 1
            with C(1) show False by simp
          next
            case 2
            then obtain ys where ys: "xs = 48 # ys" "takeWhile (is_word db) ys = []"
              by (cases xs) (auto split: if_splits)
            with 2 C(2) show False by simp
          qed
        qed
        moreover have "findall_from db standalone_pattern prev (x # xs) =
                         findall_from db standalone_pattern (Some x) xs"
          using nomatch by (rule findall_no_match)
        ultimately show ?thesis
          using rhs IHxs Cons by (simp del: findall_from.simps)
      qed
    qed
  qed
qed

lemma findall_refines: "findall db standalone_pattern text = standalone_tokens db text"
  by (simp add: findall_def findall_standalone scan_spec_def word_opt_def)

lemma py_int_score_literal:
  assumes "t \<in> set score_literals"
  shows "py_int db t = Inr (token_value t) \<and> 1 \<le> token_value t \<and> token_value t \<le> 10"
proof -
  from assms consider c where "t = [c]" "49 \<le> c" "c \<le> 57" | "t = [49, 48]"
    by (auto simp: score_literal_iff)
  then show ?thesis
  proof cases
    case 1
    then show ?thesis
      by (auto simp: py_int_def digit_val_def token_value_def ascii_def split: option.split)
  next
    case 2
    then show ?thesis
      by (simp add: py_int_def digit_val_def token_value_def ascii_def split: option.split)
  qed
qed

lemma pattern_loop_range:
  "pattern_loop db pats s = Some r \<Longrightarrow> 1 \<le> r \<and> r \<le> 10"
proof (induction pats)
  case Nil
  then show ?case by simp
next
  case (Cons pat pats)
  show ?case
  proof (cases "findall db pat s")
    case Nil
    with Cons.prems have "pattern_loop db pats s = Some r" by simp
    then show ?thesis by (rule Cons.IH)
  next
    case (Cons m ms)
    note fa = this
    show ?thesis
    proof (cases "py_int db m")
      case (Inl e)
      with fa Cons.prems have "pattern_loop db pats s = Some r" by simp
      then show ?thesis by (rule Cons.IH)
    next
      case (Inr rating)
      show ?thesis
      proof (cases "1 \<le> rating \<and> rating \<le> 10")
        case True
        with fa Inr Cons.prems show ?thesis by simp
      next
        case False
        with fa Inr Cons.prems have "pattern_loop db pats s = Some r" by simp
        then show ?thesis by (rule Cons.IH)
      qed
    qed
  qed
qed

lemma pattern_loop_no_match:
  "\<forall>pattern \<in> set pats. findall db pattern s = [] \<Longrightarrow> pattern_loop db pats s = None"
  by (induction pats) simp_all

lemma standalone_tokens_nil: "standalone_tokens db [] = []"
  by (simp add: standalone_tokens_def)

text \<open>What the function returns once the loop over the patterns has returned nothing.\<close>

lemma fallback_result:
  assumes "pattern_loop db RATING_PATTERNS s = None"
  shows "extract_rating_from_text db s =
           (case standalone_scores db s of [t] \<Rightarrow> Some t | _ \<Rightarrow> None)"
proof (cases "standalone_tokens db s")
  case Nil
  then show ?thesis
    using assms
    by (simp add: extract_rating_from_text_def findall_refines standalone_scores_def)
next
  case (Cons t ts)
  note toks = this
  show ?thesis
  proof (cases ts)
    case Nil
    have "t \<in> set (standalone_tokens db s)" using toks by simp
    then have "t \<in> set score_literals" by (simp add: standalone_tokens_def)
    then have "py_int db t = Inr (token_value t)" by (simp add: py_int_score_literal)
    moreover have "s \<noteq> []" using toks standalone_tokens_nil[of db] by auto
    ultimately show ?thesis
      using assms toks Nil
      by (simp add: extract_rating_from_text_def findall_refines standalone_scores_def)
  next
    case (Cons u us)
    moreover have "s \<noteq> []" using toks standalone_tokens_nil[of db] by auto
    ultimately show ?thesis
      using assms toks
      by (simp add: extract_rating_from_text_def findall_refines standalone_scores_def)
  qed
qed

lemma standalone_scores_range:
  "t \<in> set (standalone_scores db s) \<Longrightarrow> 1 \<le> t \<and> t \<le> 10"
  by (auto simp: standalone_scores_def standalone_tokens_def py_int_score_literal)

lemma text_rating_range:
  assumes "extract_rating_from_text db s = Some r"
  shows "1 \<le> r \<and> r \<le> 10"
proof (cases "pattern_loop db RATING_PATTERNS s")
  case None
  from fallback_result[OF None] assms
  have "standalone_scores db s = [r]"
    by (simp split: list.splits)
  then have "r \<in> set (standalone_scores db s)" by simp
  then show ?thesis by (rule standalone_scores_range)
next
  case (Some r')
  with assms have "r' = r"
    by (simp add: extract_rating_from_text_def split: if_splits)
  with Some show ?thesis by (simp add: pattern_loop_range)
qed

lemma no_label_score_7: "no_label_match ascii_db (ascii ''score 7 here'')"
  by (simp add: no_label_match_def text_defs cls_defs ascii_db_def)

lemma tokens_score_7: "standalone_scores ascii_db (ascii ''score 7 here'') = [7]"
  by (simp add: standalone_scores_def standalone_tokens_def score_literal_iff token_value_def
      ascii_def is_word_def ascii_db_def)

lemma no_label_two: "no_label_match ascii_db (ascii ''3 of 4'')"
  by (simp add: no_label_match_def text_defs cls_defs ascii_db_def)

lemma tokens_two: "standalone_scores ascii_db (ascii ''3 of 4'') = [3, 4]"
  by (simp add: standalone_scores_def standalone_tokens_def score_literal_iff token_value_def
      ascii_def is_word_def ascii_db_def)

text \<open>
  The label U+8BC4 U+5206 of the second pattern, with either colon: the text of the label,
  an ASCII colon and \<open>3 4\<close> is matched by it, so that the extractor returns 3 although
  the text holds two standalone tokens.
\<close>

lemma label_8bc4_5206:
  "extract_rating_from_text ascii_db ([35780, 20998, 58] @ ascii ''3 4'') = Some 3"
  by (simp add: text_defs cls_defs ascii_db_def)

lemma label_8bc4_5206_fullwidth:
  "extract_rating_from_text ascii_db ([35780, 20998, 65306] @ ascii '' 9'') = Some 9"
  by (simp add: text_defs cls_defs ascii_db_def)

lemma label_8bc4_5206_matches:
  "\<not> no_label_match ascii_db ([35780, 20998, 58] @ ascii ''3 4'')"
  by (simp add: no_label_match_def text_defs cls_defs ascii_db_def)

text \<open>
  Claim C9. For every free text that no label pattern matches, the text extractor
  returns the score \<open>t\<close> exactly when the text holds exactly one standalone token, and that
  token reads \<open>t\<close> (a numeral from 1 to 10 between non-word characters); with no such
  token, or more than one, it returns nothing.
\<close>

theorem single_standalone_token:
  assumes "no_label_match db s"
  shows "(extract_rating_from_text db s = Some t \<longleftrightarrow> standalone_scores db s = [t]) \<and>
         (length (standalone_scores db s) \<noteq> 1 \<longrightarrow> extract_rating_from_text db s = None)"
proof -
  have "pattern_loop db RATING_PATTERNS s = None"
    using assms by (simp add: no_label_match_def pattern_loop_no_match)
  then have "extract_rating_from_text db s =
           (case standalone_scores db s of [t] \<Rightarrow> Some t | _ \<Rightarrow> None)"
    by (rule fallback_result)
  then show ?thesis
    by (auto split: list.splits)
qed

theorem single_standalone_token_witness:
  "extract_rating_from_text ascii_db (ascii ''score 7 here'') = Some 7 \<and>
   extract_rating_from_text ascii_db (ascii ''3 of 4'') = None"
  using single_standalone_token[of ascii_db "ascii ''score 7 here''" 7]
    single_standalone_token[of ascii_db "ascii ''3 of 4''" 0]
    no_label_score_7 tokens_score_7 no_label_two tokens_two
  by simp

lemma rating_0_text: "extract_rating_from_text db (ascii ''Rating: 0'') = None"
  by (simp add: text_defs cls_defs split: option.split)

lemma review_scored_field: "rating_field_is (review_scored v) (JInt v)"
  by (simp add: rating_field_is_def review_scored_def ascii_def)

lemma review_float_field: "rating_field_is review_float (JFloat (Finite 7))"
  by (simp add: rating_field_is_def review_float_def ascii_def)

lemma text_rating_8: "extract_rating_from_text ascii_db (ascii ''Rating: 8'') = Some 8"
  by (simp add: text_defs cls_defs ascii_db_def)

text \<open>
  Claim C8. The structured field is accepted exactly when it is an integer in [0,10]: 0
  is accepted, 11 and -1 contribute no score and are not clamped, and a value that is
  no \<open>int\<close> (a float, a string) contributes none. The text extractor returns only
  integers in [1,10], and on the free text \<open>Rating: 0\<close> it returns nothing.
\<close>

theorem score_ranges:
  "(rating_field_is note (JInt v) \<longrightarrow>
      note_rating (JDict note) = Inr (if 0 \<le> v \<and> v \<le> 10 then Some v else None)) \<and>
   (rating_field_is note x \<and> \<not> isinstance_int x \<longrightarrow> note_rating (JDict note) = Inr None) \<and>
   (extract_rating_from_text db s = Some r \<longrightarrow> 1 \<le> r \<and> r \<le> 10) \<and>
   extract_rating_from_text db (ascii ''Rating: 0'') = None"
proof (intro conjI impI)
  assume f: "rating_field_is note (JInt v)"
  show "note_rating (JDict note) = Inr (if 0 \<le> v \<and> v \<le> 10 then Some v else None)"
    using note_rating_field[OF f] by (simp add: rating_accepted_def)
next
  assume "rating_field_is note x \<and> \<not> isinstance_int x"
  then have f: "rating_field_is note x" and n: "\<not> isinstance_int x" by simp_all
  show "note_rating (JDict note) = Inr None"
    using note_rating_field[OF f] n by (simp add: rating_accepted_def)
next
  assume "extract_rating_from_text db s = Some r"
  then have "1 \<le> r \<and> r \<le> 10" by (rule text_rating_range)
  then show "1 \<le> r" and "r \<le> 10" by simp_all
next
  show "extract_rating_from_text db (ascii ''Rating: 0'') = None" by (rule rating_0_text)
qed

theorem score_ranges_witness:
  "note_rating (JDict (review_scored 0)) = Inr (Some 0) \<and>
   note_rating (JDict (review_scored 11)) = Inr None \<and>
   note_rating (JDict (review_scored (- 1))) = Inr None \<and>
   note_rating (JDict review_float) = Inr None \<and>
   extract_rating_from_text ascii_db (ascii ''Rating: 8'') = Some 8 \<and> (1::int) \<le> 8 \<and> (8::int) \<le> 10 \<and>
   extract_rating_from_text ascii_db (ascii ''Rating: 0'') = None"
  using score_ranges[of "review_scored 0" 0 "JInt 0" ascii_db "ascii ''Rating: 8''" 8]
    score_ranges[of "review_scored 11" 11 "JInt 11" ascii_db "ascii ''Rating: 8''" 8]
    score_ranges[of "review_scored (- 1)" "- 1" "JInt (- 1)" ascii_db "ascii ''Rating: 8''" 8]
    score_ranges[of review_float 7 "JFloat (Finite 7)" ascii_db "ascii ''Rating: 8''" 8]
    review_scored_field review_float_field text_rating_8
  by simp

text \<open>
  Claim C3, as stated, fails: the record below exposes no structured score, its free
  text \<open>Rating: 8\<close> matches the first label pattern with the integer 8, and the extraction
  of the thread holds no score.
\<close>

theorem free_text_scanned_counterexample:
  "map_of review_text_only (ascii ''content'') =
     Some (JDict [(ascii ''review'', JDict [(ascii ''value'', JStr (ascii ''Rating: 8''))])]) \<and>
   extract_rating_from_text ascii_db (ascii ''Rating: 8'') = Some 8 \<and>
   extract_ratings_from_comments
     (JDict [(ascii ''notes'', JList [JDict review_text_only])]) = Inr []"
proof -
  have "extract_ratings_from_comments
     (JDict [(ascii ''notes'', JList [JDict review_text_only])]) = Inr []"
    by (simp add: extract_notes note_rating_def dict_get_def rating_accepted_def
        review_text_only_def ascii_def)
  moreover have "map_of review_text_only (ascii ''content'') =
     Some (JDict [(ascii ''review'', JDict [(ascii ''value'', JStr (ascii ''Rating: 8''))])])"
    by (simp add: review_text_only_def)
  ultimately show ?thesis
    using text_rating_8 by blast
qed

lemma note_rating_unscored:
  assumes "map_of note (ascii ''content'') = Some (JDict content)"
    and "map_of content (ascii ''rating'') = None"
  shows "note_rating (JDict note) = Inr None"
  using assms by (simp add: note_rating_def dict_get_def rating_accepted_def)

text \<open>
  Claim C3, amended. A review record that exposes no structured score field contributes
  no score, whatever its other fields hold: \<open>extract_ratings_from_comments\<close> reads the
  \<open>rating\<close> field only and never calls the text extractor. The thread's scores are those
  of the other notes.
\<close>

theorem unscored_record_contributes_nothing:
  assumes "map_of note (ascii ''content'') = Some (JDict content)"
    and "map_of content (ascii ''rating'') = None"
    and "map_of body (ascii ''notes'') = Some (JList (pre @ JDict note # post))"
    and "extract_loop pre [] = Inr a" and "extract_loop post [] = Inr b"
  shows "note_rating (JDict note) = Inr None \<and>
         extract_ratings_from_comments (JDict body) = Inr (a @ b)"
proof -
  have "note_rating (JDict note) = Inr None"
    using assms(1,2) by (rule note_rating_unscored)
  then show ?thesis
    using assms(3-5) by (simp add: extract_notes extract_loop_middle_none)
qed

theorem unscored_record_contributes_nothing_witness:
  "note_rating (JDict review_text_only) = Inr None \<and>
   extract_ratings_from_comments
     (JDict [(ascii ''notes'', JList [JDict review_true, JDict review_text_only])]) = Inr [1]"
  using unscored_record_contributes_nothing[of review_text_only
      "[(ascii ''review'', JDict [(ascii ''value'', JStr (ascii ''Rating: 8''))])]"
      "[(ascii ''notes'', JList [JDict review_true, JDict review_text_only])]"
      "[JDict review_true]" "[]" "[1]" "[]"]
    review_true_rating
  by (simp add: review_text_only_def ascii_def)

section \<open>The retry loop of the processor\<close>

lemma fail_step:
  assumes "attempt_fails (env (fetch_calls tr))"
  shows "attempts_loop env pid mr (attempt # rest) tr =
           (if int attempt < mr - 1
            then attempts_loop env pid mr rest (sleep (wait_time attempt) (fetched tr))
            else (None, fetched tr))"
proof (cases "not_data (fetch_paper_comments (env (fetch_calls tr)))")
  case True
  then show ?thesis by (simp add: fetched_def)
next
  case False
  with assms obtain e where
    "extract_ratings_from_comments (the (fetch_paper_comments (env (fetch_calls tr)))) = Inl e"
    by (auto simp: attempt_fails_def isl_def)
  with False show ?thesis by (simp add: fetched_def)
qed

lemma success_step:
  assumes "fetch_paper_comments (env (fetch_calls tr)) = Some body" and "truthy body"
    and "extract_ratings_from_comments body = Inr rs"
  shows "attempts_loop env pid mr (attempt # rest) tr = (Some (rating_info pid rs), fetched tr)"
  using assms by (simp add: not_data_def fetched_def)

lemma permanent_fails: "permanent_error outcome \<Longrightarrow> attempt_fails outcome"
  by (cases outcome) (simp_all add: permanent_error_def attempt_fails_def not_data_def)

lemma error_fails: "fetch_paper_comments outcome = None \<Longrightarrow> attempt_fails outcome"
  by (simp add: attempt_fails_def not_data_def)

lemma attempts_all_fail:
  assumes "n = nat mr"
  shows "fetch_calls tr = a \<Longrightarrow> a \<le> n \<Longrightarrow> (\<forall>j. a \<le> j \<and> j < n \<longrightarrow> attempt_fails (env j)) \<Longrightarrow>
     attempts_loop env pid mr [a..<n] tr =
       (None, \<lparr>fetch_calls = n, sleeps = sleeps tr @ map wait_time [a..<n - 1]\<rparr>)"
proof (induction "n - a" arbitrary: a tr)
  case 0
  then have "a = n" by simp
  with 0 show ?case by simp
next
  case (Suc d)
  then have lt: "a < n" by simp
  then have upt: "[a..<n] = a # [Suc a..<n]" by (simp add: upt_conv_Cons)
  have f: "attempt_fails (env (fetch_calls tr))" using Suc.prems lt by simp
  have mr: "mr = int n" using assms lt by simp
  show ?case
  proof (cases "Suc a < n")
    case True
    let ?tr = "sleep (wait_time a) (fetched tr)"
    have "attempts_loop env pid mr [a..<n] tr = attempts_loop env pid mr [Suc a..<n] ?tr"
      unfolding upt using True mr fail_step[where env=env and tr=tr and pid=pid and mr=mr and attempt=a and rest="[Suc a..<n]", OF f]
      by (simp del: attempts_loop.simps)
    also have "\<dots> = (None, \<lparr>fetch_calls = n,
        sleeps = sleeps ?tr @ map wait_time [Suc a..<n - 1]\<rparr>)"
    proof (rule Suc.hyps(1))
      show "d = n - Suc a" using Suc.hyps(2) by simp
      show "fetch_calls ?tr = Suc a" using Suc.prems(1) by (simp add: sleep_def fetched_def)
      show "Suc a \<le> n" using lt by simp
      show "\<forall>j. Suc a \<le> j \<and> j < n \<longrightarrow> attempt_fails (env j)" using Suc.prems(3) by simp
    qed
    also have "sleeps ?tr @ map wait_time [Suc a..<n - 1] = sleeps tr @ map wait_time [a..<n - 1]"
      using True by (simp add: sleep_def fetched_def upt_conv_Cons)
    finally show ?thesis .
  next
    case False
    then have n: "n = Suc a" using lt by simp
    have "attempts_loop env pid mr [a..<n] tr = (None, fetched tr)"
      unfolding upt using n mr fail_step[where env=env and tr=tr and pid=pid and mr=mr and attempt=a and rest="[Suc a..<n]", OF f]
      by (simp del: attempts_loop.simps)
    then show ?thesis
      using n Suc.prems(1) by (simp add: fetched_def)
  qed
qed

lemma attempts_first_success:
  assumes "n = nat mr" and "fetch_paper_comments (env k) = Some body" and "truthy body"
    and "extract_ratings_from_comments body = Inr rs" and "k < n"
  shows "fetch_calls tr = a \<Longrightarrow> a \<le> k \<Longrightarrow> (\<forall>j. a \<le> j \<and> j < k \<longrightarrow> attempt_fails (env j)) \<Longrightarrow>
     attempts_loop env pid mr [a..<n] tr =
       (Some (rating_info pid rs),
        \<lparr>fetch_calls = Suc k, sleeps = sleeps tr @ map wait_time [a..<k]\<rparr>)"
proof (induction "k - a" arbitrary: a tr)
  case 0
  then have ak: "a = k" by simp
  then have upt: "[a..<n] = a # [Suc a..<n]" using assms(5) by (simp add: upt_conv_Cons)
  have "attempts_loop env pid mr [a..<n] tr = (Some (rating_info pid rs), fetched tr)"
    unfolding upt using assms(2-4) "0.prems"(1) ak by (intro success_step) simp_all
  then show ?case using ak "0.prems"(1) by (simp add: fetched_def)
next
  case (Suc d)
  then have lt: "a < k" by simp
  then have an: "Suc a < n" using assms(5) by simp
  then have upt: "[a..<n] = a # [Suc a..<n]" by (simp add: upt_conv_Cons)
  have f: "attempt_fails (env (fetch_calls tr))" using Suc.prems lt by simp
  have mr: "mr = int n" using assms(1) an by simp
  let ?tr = "sleep (wait_time a) (fetched tr)"
  have "attempts_loop env pid mr [a..<n] tr = attempts_loop env pid mr [Suc a..<n] ?tr"
    unfolding upt using an mr fail_step[where env=env and tr=tr and pid=pid and mr=mr and attempt=a and rest="[Suc a..<n]", OF f]
    by (simp del: attempts_loop.simps)
  also have "\<dots> = (Some (rating_info pid rs),
        \<lparr>fetch_calls = Suc k, sleeps = sleeps ?tr @ map wait_time [Suc a..<k]\<rparr>)"
  proof (rule Suc.hyps(1))
    show "d = k - Suc a" using Suc.hyps(2) by simp
    show "fetch_calls ?tr = Suc a" using Suc.prems(1) by (simp add: sleep_def fetched_def)
    show "Suc a \<le> k" using lt by simp
    show "\<forall>j. Suc a \<le> j \<and> j < k \<longrightarrow> attempt_fails (env j)" using Suc.prems(3) by simp
  qed
  also have "sleeps ?tr @ map wait_time [Suc a..<k] = sleeps tr @ map wait_time [a..<k]"
    using lt by (simp add: sleep_def fetched_def upt_conv_Cons)
  finally show ?case .
qed

lemma process_all_fail:
  assumes "\<forall>j < nat mr. attempt_fails (env j)"
  shows "process_single_paper env pid mr =
           (None, \<lparr>fetch_calls = nat mr, sleeps = map wait_time [0..<nat mr - 1]\<rparr>)"
  unfolding process_single_paper_def
  using attempts_all_fail[of "nat mr" mr "\<lparr>fetch_calls = 0, sleeps = []\<rparr>" 0 env pid] assms
  by simp

lemma process_first_success:
  assumes "k < nat mr" and "\<forall>j < k. attempt_fails (env j)"
    and "fetch_paper_comments (env k) = Some body" and "truthy body"
    and "extract_ratings_from_comments body = Inr rs"
  shows "process_single_paper env pid mr =
           (Some (rating_info pid rs), \<lparr>fetch_calls = Suc k, sleeps = map wait_time [0..<k]\<rparr>)"
  unfolding process_single_paper_def
  using attempts_first_success[of "nat mr" mr env k body rs "\<lparr>fetch_calls = 0, sleeps = []\<rparr>" 0 pid]
    assms
  by simp

lemma not_fails_success:
  assumes "\<not> attempt_fails outcome"
  shows "\<exists>body rs. fetch_paper_comments outcome = Some body \<and> truthy body \<and>
           extract_ratings_from_comments body = Inr rs"
proof -
  from assms obtain body where b: "fetch_paper_comments outcome = Some body" "truthy body"
    by (auto simp: attempt_fails_def not_data_def split: option.splits)
  with assms have "\<not> isl (extract_ratings_from_comments body)"
    by (simp add: attempt_fails_def)
  then obtain rs where "extract_ratings_from_comments body = Inr rs"
    by (cases "extract_ratings_from_comments body") simp_all
  with b show ?thesis by blast
qed

text \<open>
  The loop stops at the first attempt that does not fail, and runs through the whole
  budget when there is none.
\<close>

lemma first_failure_free:
  assumes "\<not> (\<forall>j < n. attempt_fails (env j))"
  shows "\<exists>m < n::nat. (\<forall>j < m. attempt_fails (env j)) \<and> \<not> attempt_fails (env m)"
proof -
  from assms obtain j where j: "j < n" "\<not> attempt_fails (env j)" by blast
  then obtain m where m: "\<not> attempt_fails (env m)" "\<forall>i < m. attempt_fails (env i)"
    using exists_least_iff[of "\<lambda>j. \<not> attempt_fails (env j)"] by blast
  with j(2) have "\<not> j < m" by blast
  with j(1) have "m < n" by simp
  with m show ?thesis by blast
qed

lemma process_success_at:
  assumes "m < nat mr" and "\<forall>j < m. attempt_fails (env j)" and "\<not> attempt_fails (env m)"
  shows "\<exists>rs. process_single_paper env pid mr =
           (Some (rating_info pid rs), \<lparr>fetch_calls = Suc m, sleeps = map wait_time [0..<m]\<rparr>)"
proof -
  from assms(3) obtain body rs where "fetch_paper_comments (env m) = Some body" "truthy body"
      "extract_ratings_from_comments body = Inr rs"
    using not_fails_success by blast
  with assms(1,2) have "process_single_paper env pid mr =
           (Some (rating_info pid rs), \<lparr>fetch_calls = Suc m, sleeps = map wait_time [0..<m]\<rparr>)"
    by (rule process_first_success)
  then show ?thesis by blast
qed

lemma process_fails_iff:
  "fst (process_single_paper env pid mr) = None \<longleftrightarrow> (\<forall>j < nat mr. attempt_fails (env j))"
proof
  assume all: "\<forall>j < nat mr. attempt_fails (env j)"
  from process_all_fail[OF this, of pid] show "fst (process_single_paper env pid mr) = None"
    by simp
next
  assume none: "fst (process_single_paper env pid mr) = None"
  show "\<forall>j < nat mr. attempt_fails (env j)"
  proof (rule ccontr)
    assume "\<not> (\<forall>j < nat mr. attempt_fails (env j))"
    then obtain m where "m < nat mr" "\<forall>j < m. attempt_fails (env j)" "\<not> attempt_fails (env m)"
      using first_failure_free by blast
    then obtain rs where "process_single_paper env pid mr =
        (Some (rating_info pid rs), \<lparr>fetch_calls = Suc m, sleeps = map wait_time [0..<m]\<rparr>)"
      using process_success_at by blast
    with none show False by simp
  qed
qed

text \<open>The trace of a call: the fetches made, and the backoff waits between them.\<close>

lemma process_trace:
  "\<exists>n \<le> nat mr - 1.
       fetch_calls (snd (process_single_paper env pid mr)) = min (nat mr) (Suc n) \<and>
       sleeps (snd (process_single_paper env pid mr)) = map wait_time [0..<n] \<and>
       (\<forall>j < n. attempt_fails (env j))"
proof (cases "\<forall>j < nat mr. attempt_fails (env j)")
  case True
  from process_all_fail[OF this, of pid] True show ?thesis
    by (intro exI[of _ "nat mr - 1"]) auto
next
  case False
  then obtain m where m: "m < nat mr" "\<forall>j < m. attempt_fails (env j)" "\<not> attempt_fails (env m)"
    using first_failure_free by blast
  then obtain rs where "process_single_paper env pid mr =
      (Some (rating_info pid rs), \<lparr>fetch_calls = Suc m, sleeps = map wait_time [0..<m]\<rparr>)"
    using process_success_at by blast
  with m show ?thesis by (intro exI[of _ m]) auto
qed

lemma first_raise_none:
  "first_raise in_range ws = None \<longleftrightarrow> list_all (\<lambda>w. wait_raises in_range w = None) ws"
  by (induction ws) (auto split: option.splits)

lemma accepted_call:
  assumes "waits_accepted in_range mr"
  shows "process_single_paper_call in_range env pid mr =
           Inr (fst (process_single_paper env pid mr))"
proof -
  obtain n where n: "n \<le> nat mr - 1"
      "sleeps (snd (process_single_paper env pid mr)) = map wait_time [0..<n]"
    using process_trace[of mr env pid] by blast
  have "list_all (\<lambda>a. wait_raises in_range (wait_time a) = None) [0..<n]"
    using assms n(1) by (auto simp: waits_accepted_def list_all_iff)
  then have "first_raise in_range (map wait_time [0..<n]) = None"
    by (simp add: first_raise_none list_all_iff)
  with n(2) show ?thesis by (simp add: process_single_paper_call_def)
qed

lemma retried_after_failure:
  assumes "Suc k < nat mr" and "\<forall>j \<le> k. attempt_fails (env j)"
  shows "Suc (Suc k) \<le> fetch_calls (snd (process_single_paper env pid mr)) \<and>
         take (Suc k) (sleeps (snd (process_single_paper env pid mr))) = map wait_time [0..<Suc k]"
proof -
  obtain n where n: "n \<le> nat mr - 1"
      "fetch_calls (snd (process_single_paper env pid mr)) = min (nat mr) (Suc n)"
      "sleeps (snd (process_single_paper env pid mr)) = map wait_time [0..<n]"
      "\<forall>j < n. attempt_fails (env j)"
    using process_trace[of mr env pid] by blast
  have "Suc k \<le> n"
  proof (rule ccontr)
    assume "\<not> Suc k \<le> n"
    then have le: "n \<le> k" by simp
    show False
    proof (cases "\<forall>j < nat mr. attempt_fails (env j)")
      case True
      from process_all_fail[OF this, of pid] n(3) have "map wait_time [0..<nat mr - 1] = map wait_time [0..<n]"
        by simp
      then have "length (map wait_time [0..<nat mr - 1]) = length (map wait_time [0..<n])" by simp
      then have "nat mr - 1 = n" by simp
      with le assms(1) show False by simp
    next
      case False
      then obtain m where m: "m < nat mr" "\<forall>j < m. attempt_fails (env j)" "\<not> attempt_fails (env m)"
        using first_failure_free by blast
      then obtain rs where "process_single_paper env pid mr =
          (Some (rating_info pid rs), \<lparr>fetch_calls = Suc m, sleeps = map wait_time [0..<m]\<rparr>)"
        using process_success_at by blast
      with n(3) have "length (map wait_time [0..<m]) = length (map wait_time [0..<n])" by simp
      then have "m = n" by simp
      with m(3) le assms(2) show False by simp
    qed
  qed
  then show ?thesis using n(2,3) assms(1) by (simp add: take_map del: upt_Suc)
qed


lemma permanent_404: "permanent_error (always_404 k)"
  by (simp add: permanent_error_def always_404_def)

lemma upt_3: "[0..<3] = [0, 1, 2]" "[0..<2] = [0, 1]"
  by (simp_all add: upt_rec)

text \<open>
  Claim C2, as stated, fails: a remote that answers 404 (a permanent error) to every
  fetch is fetched three times by \<open>process_single_paper\<close> with its default budget, not
  once.
\<close>

theorem permanent_error_fails_immediately_counterexample:
  "permanent_error (always_404 0) \<and>
   fetch_calls (snd (process_single_paper always_404 (ascii ''p1'') 3)) = 3"
proof -
  have "\<forall>j < nat 3. attempt_fails (always_404 j)"
    by (simp add: permanent_404 permanent_fails)
  then have "process_single_paper always_404 (ascii ''p1'') 3 =
       (None, \<lparr>fetch_calls = nat 3, sleeps = map wait_time [0..<nat 3 - 1]\<rparr>)"
    by (rule process_all_fail)
  then show ?thesis by (simp add: permanent_404)
qed

lemma timeout_then_404_fails: "attempt_fails (timeout_then_404 j)"
  by (simp add: timeout_then_404_def error_fails)

lemma waits_accepted_3: "waits_accepted ns_range 3"
  by (simp add: waits_accepted_def upt_3 wait_time_def wait_raises_def time_sleep_def
      ns_range_def)

text \<open>
  Claim C2, amended. A permanent error is retried like any other failure. Let the
  \<open>k\<close>-th fetch of an item end in a permanent error, after attempts that failed in any
  way, within a budget whose backoff waits the call can sleep. Then the call raises
  nothing; if attempts remain, the processor has slept the wait of every attempt up to
  \<open>k\<close> and has fetched again; the item fails exactly when every attempt of the budget fails,
  and then only after \<open>max_retries\<close> fetches, with all the waits in between; and a later
  attempt that does not fail still ends the call with a record, at that fetch.
\<close>

theorem permanent_error_retried:
  assumes "k < nat mr" and "permanent_error (env k)" and "\<forall>j < k. attempt_fails (env j)"
    and "waits_accepted in_range mr"
  shows "process_single_paper_call in_range env pid mr =
           Inr (fst (process_single_paper env pid mr)) \<and>
         (Suc k < nat mr \<longrightarrow>
            Suc (Suc k) \<le> fetch_calls (snd (process_single_paper env pid mr)) \<and>
            take (Suc k) (sleeps (snd (process_single_paper env pid mr))) =
              map wait_time [0..<Suc k]) \<and>
         (fst (process_single_paper env pid mr) = None \<longleftrightarrow>
            (\<forall>j < nat mr. attempt_fails (env j))) \<and>
         (fst (process_single_paper env pid mr) = None \<longrightarrow>
            snd (process_single_paper env pid mr) =
              \<lparr>fetch_calls = nat mr, sleeps = map wait_time [0..<nat mr - 1]\<rparr>) \<and>
         (\<forall>m. m < nat mr \<and> (\<forall>j < m. attempt_fails (env j)) \<and> \<not> attempt_fails (env m) \<longrightarrow>
            fst (process_single_paper env pid mr) \<noteq> None \<and>
            fetch_calls (snd (process_single_paper env pid mr)) = Suc m)"
proof (intro conjI impI allI)
  show "process_single_paper_call in_range env pid mr =
          Inr (fst (process_single_paper env pid mr))"
    using assms(4) by (rule accepted_call)
next
  assume more: "Suc k < nat mr"
  have "attempt_fails (env k)" using assms(2) by (rule permanent_fails)
  with assms(3) have upto: "\<forall>j \<le> k. attempt_fails (env j)"
    by (auto simp: le_less)
  from retried_after_failure[OF more upto, of pid]
  show "Suc (Suc k) \<le> fetch_calls (snd (process_single_paper env pid mr))"
    and "take (Suc k) (sleeps (snd (process_single_paper env pid mr))) =
           map wait_time [0..<Suc k]"
    by simp_all
next
  show "fst (process_single_paper env pid mr) = None \<longleftrightarrow>
          (\<forall>j < nat mr. attempt_fails (env j))"
    by (rule process_fails_iff)
next
  assume "fst (process_single_paper env pid mr) = None"
  then have "\<forall>j < nat mr. attempt_fails (env j)" by (simp add: process_fails_iff)
  from process_all_fail[OF this, of pid]
  show "snd (process_single_paper env pid mr) =
          \<lparr>fetch_calls = nat mr, sleeps = map wait_time [0..<nat mr - 1]\<rparr>"
    by simp
next
  fix m
  assume m: "m < nat mr \<and> (\<forall>j < m. attempt_fails (env j)) \<and> \<not> attempt_fails (env m)"
  then obtain rs where run: "process_single_paper env pid mr =
      (Some (rating_info pid rs), \<lparr>fetch_calls = Suc m, sleeps = map wait_time [0..<m]\<rparr>)"
    using process_success_at[of m mr env pid] by blast
  from run show "fst (process_single_paper env pid mr) \<noteq> None" by simp
  from run show "fetch_calls (snd (process_single_paper env pid mr)) = Suc m" by simp
qed

theorem permanent_error_retried_witness:
  "\<not> permanent_error (timeout_then_404 0) \<and> permanent_error (timeout_then_404 1) \<and>
   waits_accepted ns_range 3 \<and>
   process_single_paper timeout_then_404 (ascii ''p1'') 3 =
     (None, \<lparr>fetch_calls = 3, sleeps = [1 / 2, 1]\<rparr>) \<and>
   process_single_paper_call ns_range timeout_then_404 (ascii ''p1'') 3 = Inr None"
proof -
  have k: "(1::nat) < nat 3" by simp
  have p: "permanent_error (timeout_then_404 1)"
    by (simp add: permanent_error_def timeout_then_404_def)
  have t: "\<not> permanent_error (timeout_then_404 0)"
    by (simp add: permanent_error_def timeout_then_404_def)
  have f: "\<forall>j < 1. attempt_fails (timeout_then_404 j)"
    by (simp add: timeout_then_404_fails)
  note inst = permanent_error_retried[where env=timeout_then_404 and k=1 and mr=3
      and in_range=ns_range and pid="ascii ''p1''", OF k p f waits_accepted_3]
  have all: "\<forall>j < nat 3. attempt_fails (timeout_then_404 j)"
    by (simp add: timeout_then_404_fails)
  with inst have none: "fst (process_single_paper timeout_then_404 (ascii ''p1'') 3) = None"
    by blast
  with inst have tr: "snd (process_single_paper timeout_then_404 (ascii ''p1'') 3) =
      \<lparr>fetch_calls = nat 3, sleeps = map wait_time [0..<nat 3 - 1]\<rparr>"
    by blast
  have run: "process_single_paper timeout_then_404 (ascii ''p1'') 3 =
     (None, \<lparr>fetch_calls = 3, sleeps = [1 / 2, 1]\<rparr>)"
    using none tr by (simp add: prod_eq_iff upt_3 wait_time_def)
  from inst none have "process_single_paper_call ns_range timeout_then_404 (ascii ''p1'') 3 =
      Inr None"
    by simp
  with t p waits_accepted_3 run show ?thesis by (intro conjI)
qed

lemma thread_unscored_extract: "extract_ratings_from_comments thread_unscored = Inr []"
  by (simp add: thread_unscored_def extract_notes note_rating_def dict_get_def
      rating_accepted_def review_text_only_def ascii_def)

lemma thread_unscored_truthy: "truthy thread_unscored"
  by (simp add: thread_unscored_def)



section \<open>The batch\<close>

lemma loop_paper_id:
  "attempts_loop env pid mr xs tr = (Some r, tr') \<Longrightarrow> paper_id r = pid"
proof (induction xs arbitrary: tr)
  case Nil
  then show ?case by simp
next
  case (Cons x xs)
  show ?case
  proof (cases "attempt_fails (env (fetch_calls tr))")
    case True
    note step = fail_step[where env=env and tr=tr and pid=pid and mr=mr and attempt=x and rest=xs,
        OF True]
    show ?thesis
    proof (cases "int x < mr - 1")
      case t: True
      with step Cons.prems
      have "attempts_loop env pid mr xs (sleep (wait_time x) (fetched tr)) = (Some r, tr')"
        by (simp del: attempts_loop.simps)
      then show ?thesis by (rule Cons.IH)
    next
      case False
      with step Cons.prems show ?thesis by (simp del: attempts_loop.simps)
    qed
  next
    case False
    then obtain body rs where "fetch_paper_comments (env (fetch_calls tr)) = Some body"
        "truthy body" "extract_ratings_from_comments body = Inr rs"
      using not_fails_success by blast
    then have "attempts_loop env pid mr (x # xs) tr = (Some (rating_info pid rs), fetched tr)"
      by (rule success_step)
    with Cons.prems have "r = rating_info pid rs" by (simp del: attempts_loop.simps)
    then show ?thesis by (simp add: rating_info_def)
  qed
qed

lemma process_paper_id:
  assumes "fst (process_single_paper env pid mr) = Some r"
  shows "paper_id r = pid"
proof -
  obtain tr' where "process_single_paper env pid mr = (Some r, tr')"
    using assms by (cases "process_single_paper env pid mr") simp
  then have "attempts_loop env pid mr [0..<nat mr] \<lparr>fetch_calls = 0, sleeps = []\<rparr> = (Some r, tr')"
    by (simp add: process_single_paper_def)
  then show ?thesis by (rule loop_paper_id)
qed

lemma future_lookup:
  "i < length paper_ids \<Longrightarrow> map_of (future_to_paper paper_ids) i = Some (paper_ids ! i)"
  unfolding future_to_paper_def
  using map_of_zip_nth[of "[0..<length paper_ids]" paper_ids i]
  by simp

lemma mset_completion_order:
  assumes "mset order = mset [0..<length paper_ids]"
  shows "mset (map ((!) paper_ids) order) = mset paper_ids"
proof -
  have "mset (map ((!) paper_ids) order) = image_mset ((!) paper_ids) (mset order)"
    by simp
  also have "\<dots> = mset (map ((!) paper_ids) [0..<length paper_ids])"
    using assms by simp
  also have "\<dots> = mset paper_ids"
    by (simp add: map_nth)
  finally show ?thesis .
qed

lemma call_paper_id:
  assumes "process_single_paper_call in_range env pid mr = Inr (Some r)"
  shows "paper_id r = pid"
proof -
  from assms have "fst (process_single_paper env pid mr) = Some r"
    by (simp add: process_single_paper_call_def split: option.splits)
  then show ?thesis by (rule process_paper_id)
qed

lemma completed_step_failed:
  assumes "map_of f2p i = Some pid"
    and "\<forall>r. process_single_paper_call in_range (envs i) pid 3 \<noteq> Inr (Some r)"
    and "time_sleep in_range (delay c) = None"
  shows "completed_loop in_range envs f2p (i # order) res c =
           completed_loop in_range envs f2p order res
             (c\<lparr>failed_papers := failed_papers c @ [pid]\<rparr>)"
  using assms by (simp add: Let_def split: sum.splits option.splits)

lemma completed_step_succeeded:
  assumes "map_of f2p i = Some pid"
    and "process_single_paper_call in_range (envs i) pid 3 = Inr (Some r)"
    and "time_sleep in_range (delay c) = None"
  shows "completed_loop in_range envs f2p (i # order) res c =
           completed_loop in_range envs f2p order (res @ [r]) c"
  using assms by (simp add: Let_def)

text \<open>Every completed future adds its paper to exactly one of the two lists.\<close>

lemma completed_loop_accounts:
  assumes "time_sleep in_range (delay c) = None" and "\<forall>i \<in> set order. i < length paper_ids"
  shows "\<exists>res' c'. completed_loop in_range envs (future_to_paper paper_ids) order res c =
             (Inr res', c') \<and>
           mset (map paper_id res') + mset (failed_papers c') =
             mset (map paper_id res) + mset (failed_papers c) + mset (map ((!) paper_ids) order)"
  using assms
proof (induction order arbitrary: res c)
  case Nil
  show ?case by simp
next
  case (Cons i order)
  let ?pid = "paper_ids ! i"
  let ?f2p = "future_to_paper paper_ids"
  have lk: "map_of ?f2p i = Some ?pid"
    using Cons.prems(2) by (simp add: future_lookup)
  have rest: "\<forall>i \<in> set order. i < length paper_ids" using Cons.prems(2) by simp
  show ?case
  proof (cases "\<exists>r. process_single_paper_call in_range (envs i) ?pid 3 = Inr (Some r)")
    case False
    then have no: "\<forall>r. process_single_paper_call in_range (envs i) ?pid 3 \<noteq> Inr (Some r)"
      by simp
    let ?c1 = "c\<lparr>failed_papers := failed_papers c @ [?pid]\<rparr>"
    have step: "completed_loop in_range envs ?f2p (i # order) res c =
                completed_loop in_range envs ?f2p order res ?c1"
      using lk no Cons.prems(1) by (rule completed_step_failed)
    have "time_sleep in_range (delay ?c1) = None" using Cons.prems(1) by simp
    from Cons.IH[OF this rest, of res] obtain res' c' where
      run: "completed_loop in_range envs ?f2p order res ?c1 = (Inr res', c')" and
      acc: "mset (map paper_id res') + mset (failed_papers c') =
         mset (map paper_id res) + mset (failed_papers ?c1) + mset (map ((!) paper_ids) order)"
      by blast
    have "mset (map paper_id res') + mset (failed_papers c') =
          mset (map paper_id res) + mset (failed_papers c) + mset (map ((!) paper_ids) (i # order))"
      using acc by simp
    with run step show ?thesis by (simp del: completed_loop.simps)
  next
    case True
    then obtain r where some: "process_single_paper_call in_range (envs i) ?pid 3 = Inr (Some r)"
      by blast
    then have pid: "paper_id r = ?pid" by (rule call_paper_id)
    have step: "completed_loop in_range envs ?f2p (i # order) res c =
                completed_loop in_range envs ?f2p order (res @ [r]) c"
      using lk some Cons.prems(1) by (rule completed_step_succeeded)
    from Cons.IH[OF Cons.prems(1) rest, of "res @ [r]"] obtain res' c' where
      run: "completed_loop in_range envs ?f2p order (res @ [r]) c = (Inr res', c')" and
      acc: "mset (map paper_id res') + mset (failed_papers c') =
         mset (map paper_id (res @ [r])) + mset (failed_papers c) +
         mset (map ((!) paper_ids) order)"
      by blast
    have "mset (map paper_id res') + mset (failed_papers c') =
          mset (map paper_id res) + mset (failed_papers c) + mset (map ((!) paper_ids) (i # order))"
      using acc pid by simp
    with run step show ?thesis by (simp del: completed_loop.simps)
  qed
qed

text \<open>A batch of three papers, the second of which fails, completing in the order 2, 0, 1.\<close>

lemma task_succeeds:
  assumes "i \<noteq> Suc 0"
  shows "process_single_paper_call ns_range (two_succeed_one_fails i) pid 3 =
           Inr (Some (rating_info pid []))"
proof -
  have "fetch_paper_comments (two_succeed_one_fails i 0) = Some thread_unscored"
    using assms by (simp add: two_succeed_one_fails_def)
  then have "process_single_paper (two_succeed_one_fails i) pid 3 =
      (Some (rating_info pid []), \<lparr>fetch_calls = Suc 0, sleeps = map wait_time [0..<0]\<rparr>)"
    using thread_unscored_truthy thread_unscored_extract
    by (intro process_first_success[where k=0 and body=thread_unscored]) simp_all
  then show ?thesis by (simp add: process_single_paper_call_def)
qed

lemma task_fails:
  "process_single_paper_call ns_range (two_succeed_one_fails (Suc 0)) pid 3 = Inr None"
proof -
  have "\<forall>j < nat 3. attempt_fails (two_succeed_one_fails (Suc 0) j)"
    by (simp add: two_succeed_one_fails_def error_fails)
  from process_all_fail[OF this, of pid] show ?thesis
    by (simp add: process_single_paper_call_def upt_3 wait_time_def wait_raises_def
        time_sleep_def ns_range_def)
qed

lemma batch_example:
  "process_papers_batch ns_range two_succeed_one_fails [2, 0, 1] (init_crawler 50 (1 / 10))
     [ascii ''a'', ascii ''b'', ascii ''c''] =
   (Inr [rating_info (ascii ''c'') [], rating_info (ascii ''a'') []],
    (init_crawler 50 (1 / 10))\<lparr>failed_papers := [ascii ''b'']\<rparr>)"
  by (simp add: process_papers_batch_def future_to_paper_def init_crawler_def upt_rec
      task_succeeds task_fails time_sleep_def ns_range_def)

text \<open>
  On a platform whose \<open>time.sleep\<close> refuses the first backoff wait, the call for the
  failing paper raises instead of returning \<open>None\<close>.
\<close>

lemma task_raises:
  "process_single_paper_call (\<lambda>w. w \<le> 1 / 10) (two_succeed_one_fails (Suc 0)) pid 3 =
     Inl OverflowError"
proof -
  have "\<forall>j < nat 3. attempt_fails (two_succeed_one_fails (Suc 0) j)"
    by (simp add: two_succeed_one_fails_def error_fails)
  from process_all_fail[OF this, of pid] show ?thesis
    by (simp add: process_single_paper_call_def upt_3 wait_time_def wait_raises_def
        time_sleep_def)
qed

text \<open>
  A delay that \<open>time.sleep\<close> refuses ends the batch at its first completed future: nothing
  is returned.
\<close>

lemma batch_sleep_raises:
  assumes "time_sleep in_range (delay c) = Some e" and "0 < max_workers c"
    and "mset order = mset [0..<length paper_ids]" and "paper_ids \<noteq> []"
  shows "fst (process_papers_batch in_range envs order c paper_ids) = Inl e"
proof -
  have st: "set order = set [0..<length paper_ids]"
    using assms(3) by (rule mset_eq_setD)
  with assms(4) obtain i rest where o: "order = i # rest" by (cases order) auto
  with st have "i < length paper_ids" by auto
  then have "map_of (future_to_paper paper_ids) i = Some (paper_ids ! i)" by (rule future_lookup)
  then have "fst (completed_loop in_range envs (future_to_paper paper_ids) (i # rest) [] c) = Inl e"
    using assms(1) by (simp add: Let_def)
  with o assms(2) show ?thesis by (simp add: process_papers_batch_def del: completed_loop.simps)
qed

text \<open>
  Claim C1. For every duplicate-free list of item IDs given to \<open>process_papers_batch\<close> on
  a crawler as \<open>__init__\<close> builds it, with a positive number of workers and a delay that
  \<open>time.sleep\<close> accepts (not negative, and within the platform's range \<open>in_range\<close>), and
  whatever the order in which the futures complete, the batch returns, and every input ID
  ends up in exactly one of the two collections, the \<open>paper_id\<close>s of the returned records
  and \<open>failed_papers\<close>: their lengths add up to the number of input IDs, no ID is in both,
  none is dropped, and none appears twice.
\<close>

theorem batch_accounts_for_every_id:
  assumes "distinct paper_ids" and "mset order = mset [0..<length paper_ids]"
    and "0 < mw" and "0 \<le> d" and "in_range d"
  shows "\<exists>res c'. process_papers_batch in_range envs order (init_crawler mw d) paper_ids =
             (Inr res, c') \<and>
           length res + length (failed_papers c') = length paper_ids \<and>
           set (map paper_id res) \<inter> set (failed_papers c') = {} \<and>
           set (map paper_id res) \<union> set (failed_papers c') = set paper_ids \<and>
           distinct (map paper_id res @ failed_papers c')"
proof -
  let ?c = "init_crawler mw d"
  have "set order = set [0..<length paper_ids]"
    using assms(2) by (rule mset_eq_setD)
  then have inr: "\<forall>i \<in> set order. i < length paper_ids" by simp
  have "time_sleep in_range (delay ?c) = None"
    using assms(4,5) by (simp add: init_crawler_def time_sleep_def)
  from completed_loop_accounts[OF this inr, of envs "[]"] obtain res c' where
    run: "completed_loop in_range envs (future_to_paper paper_ids) order [] ?c = (Inr res, c')" and
    acc: "mset (map paper_id res) + mset (failed_papers c') =
         mset (failed_papers ?c) + mset (map ((!) paper_ids) order)"
    by (simp del: completed_loop.simps) blast
  have m: "mset (map paper_id res @ failed_papers c') = mset paper_ids"
    using acc mset_completion_order[OF assms(2)] by (simp add: init_crawler_def)
  have batch: "process_papers_batch in_range envs order ?c paper_ids = (Inr res, c')"
    using run assms(3) by (simp add: process_papers_batch_def init_crawler_def)
  have len: "length (map paper_id res @ failed_papers c') = length paper_ids"
    using m by (rule mset_eq_length)
  have dist: "distinct (map paper_id res @ failed_papers c')"
    using mset_eq_imp_distinct_iff[OF m] assms(1) by blast
  have st: "set (map paper_id res @ failed_papers c') = set paper_ids"
    using m by (rule mset_eq_setD)
  from dist have disj: "set (map paper_id res) \<inter> set (failed_papers c') = {}"
    by simp
  show ?thesis
  proof (intro exI conjI)
    show "process_papers_batch in_range envs order ?c paper_ids = (Inr res, c')" by (rule batch)
    show "length res + length (failed_papers c') = length paper_ids" using len by simp
    show "set (map paper_id res) \<inter> set (failed_papers c') = {}" by (rule disj)
    show "set (map paper_id res) \<union> set (failed_papers c') = set paper_ids" using st by simp
    show "distinct (map paper_id res @ failed_papers c')" by (rule dist)
  qed
qed

theorem batch_accounts_for_every_id_witness:
  "distinct [ascii ''a'', ascii ''b'', ascii ''c''] \<and> ns_range (1 / 10) \<and>
   process_papers_batch ns_range two_succeed_one_fails [2, 0, 1] (init_crawler 50 (1 / 10))
     [ascii ''a'', ascii ''b'', ascii ''c''] =
   (Inr [rating_info (ascii ''c'') [], rating_info (ascii ''a'') []],
    (init_crawler 50 (1 / 10))\<lparr>failed_papers := [ascii ''b'']\<rparr>) \<and>
   (\<exists>res c'. process_papers_batch ns_range two_succeed_one_fails [2, 0, 1] (init_crawler 50 (1 / 10))
        [ascii ''a'', ascii ''b'', ascii ''c''] = (Inr res, c') \<and>
      length res + length (failed_papers c') = 3 \<and>
      set (map paper_id res) \<inter> set (failed_papers c') = {} \<and>
      set (map paper_id res) \<union> set (failed_papers c') = {ascii ''a'', ascii ''b'', ascii ''c''})"
proof -
  have d: "distinct [ascii ''a'', ascii ''b'', ascii ''c'']" by (simp add: ascii_def)
  have p: "mset [2, 0, 1] = mset [0..<length [ascii ''a'', ascii ''b'', ascii ''c'']]"
    by (simp add: upt_rec)
  have r: "ns_range (1 / 10)" by (simp add: ns_range_def)
  have w: "(0::int) < 50" by simp
  have n: "(0::rat) \<le> 1 / 10" by simp
  from batch_accounts_for_every_id[where in_range=ns_range and envs=two_succeed_one_fails,
      OF d p w n r]
  obtain res c' where
    "process_papers_batch ns_range two_succeed_one_fails [2, 0, 1] (init_crawler 50 (1 / 10))
        [ascii ''a'', ascii ''b'', ascii ''c''] = (Inr res, c')"
    "length res + length (failed_papers c') = length [ascii ''a'', ascii ''b'', ascii ''c'']"
    "set (map paper_id res) \<inter> set (failed_papers c') = {}"
    "set (map paper_id res) \<union> set (failed_papers c') =
       set [ascii ''a'', ascii ''b'', ascii ''c'']"
    by force
  then have "\<exists>res c'. process_papers_batch ns_range two_succeed_one_fails [2, 0, 1]
        (init_crawler 50 (1 / 10)) [ascii ''a'', ascii ''b'', ascii ''c''] = (Inr res, c') \<and>
      length res + length (failed_papers c') = 3 \<and>
      set (map paper_id res) \<inter> set (failed_papers c') = {} \<and>
      set (map paper_id res) \<union> set (failed_papers c') = {ascii ''a'', ascii ''b'', ascii ''c''}"
    by (intro exI[of _ res] exI[of _ c']) simp
  with d r batch_example show ?thesis by (intro conjI)
qed

section \<open>Rounding and the mean\<close>

































end
